theory Spec2Isabelle
  imports Main "HOL-Library.AList" "HOL-Library.Multiset"
begin

section \<open>Python values, dictionaries and errors\<close>

text \<open>
  The modules of the \<open>linode.cloud\<close> collection are Python classes that talk to a remote
  API.  Every raise of the source is a value of \<open>error\<close>; every remote call and every
  \<open>register_action\<close> is an event of an explicit trace, so that the number and the order
  of the writes can be read off the result.

  A Python \<open>dict\<close> is an association list with pairwise distinct keys, in insertion order:
  \<open>d[k] = v\<close> is \<open>AList.update k v d\<close> (in place for a known key, appended otherwise),
  \<open>k in d\<close> is \<open>map_of d k \<noteq> None\<close>, \<open>d.get(k)\<close> is \<open>map_of d k\<close>.
\<close>

datatype error =
    KeyError string
  | AttributeError string
  | ApiError nat
  | OtherError string
  | TimeoutError
  | ModuleFail string

datatype jval =
    JNull
  | JBool bool
  | JInt int
  | JStr string
  | JList "jval list"
  | JDict "(string \<times> jval) list"

type_synonym 'v dict = "(string \<times> 'v) list"

text \<open>\<open>d.pop(k)\<close>: the value and the dictionary without the key; \<open>KeyError\<close> for a missing key.\<close>

definition dict_pop :: "string \<Rightarrow> 'v dict \<Rightarrow> error + ('v \<times> 'v dict)" where
  "dict_pop k d =
     (case map_of d k of
        None \<Rightarrow> Inl (KeyError k)
      | Some v \<Rightarrow> Inr (v, AList.delete k d))"

text \<open>
  \<open>a == b\<close> on dictionaries: the same keys with equal values, whatever the insertion order.
  The values are compared with \<open>eq\<close>.
\<close>

definition dict_eq_by :: "('v \<Rightarrow> 'v \<Rightarrow> bool) \<Rightarrow> 'v dict \<Rightarrow> 'v dict \<Rightarrow> bool" where
  "dict_eq_by eq a b =
     (list_all (\<lambda>(k, v). case map_of b k of None \<Rightarrow> False | Some w \<Rightarrow> eq v w) a \<and>
      list_all (\<lambda>(k, w). map_of a k \<noteq> None) b)"

definition dict_eq :: "jval dict \<Rightarrow> jval dict \<Rightarrow> bool" where
  "dict_eq a b = dict_eq_by (=) a b"

text \<open>Python's truth value of a JSON value (\<open>if v:\<close>).\<close>

fun jtruthy :: "jval \<Rightarrow> bool" where
  "jtruthy JNull = False"
| "jtruthy (JBool b) = b"
| "jtruthy (JInt n) = (n \<noteq> 0)"
| "jtruthy (JStr s) = (s \<noteq> [])"
| "jtruthy (JList vs) = (vs \<noteq> [])"
| "jtruthy (JDict d) = (d \<noteq> [])"

text \<open>\<open>str.lower()\<close> on ASCII letters (the entity types of a grant are ASCII words).\<close>

definition lower_char :: "char \<Rightarrow> char" where
  "lower_char c =
     (case map_of (zip ''ABCDEFGHIJKLMNOPQRSTUVWXYZ'' ''abcdefghijklmnopqrstuvwxyz'') c of
        None \<Rightarrow> c
      | Some l \<Rightarrow> l)"

definition str_lower :: "string \<Rightarrow> string" where
  "str_lower s = map lower_char s"


section \<open>user.py: grants\<close>

text \<open>
  A resource grant is the dictionary \<open>{"id": .., "permissions": ..}\<close>; the remote document
  adds a \<open>"label"\<close> to each (\<open>grant_label = None\<close>: the key is absent).
  \<open>permissions = None\<close> is Python's \<open>None\<close>: no access.
\<close>

record grant =
  grant_id :: int
  grant_label :: "string option"
  permissions :: "string option"

text \<open>
  A value of a grants document: the \<open>"global"\<close> object, \<open>None\<close>, or the list of resource
  grants of one category (\<open>isinstance(resource, list)\<close>).
\<close>

datatype gval = GDict "jval dict" | GNull | GList "grant list"

type_synonym grants_doc = "gval dict"

fun truthy :: "gval \<Rightarrow> bool" where
  "truthy (GDict d) = (d \<noteq> [])"
| "truthy GNull = False"
| "truthy (GList gs) = (gs \<noteq> [])"

fun gval_eq :: "gval \<Rightarrow> gval \<Rightarrow> bool" where
  "gval_eq (GDict a) (GDict b) = dict_eq a b"
| "gval_eq GNull GNull = True"
| "gval_eq (GList a) (GList b) = (a = b)"
| "gval_eq _ _ = False"

text \<open>The module parameters: a key can be absent, \<open>None\<close>, or given.\<close>

datatype 'a param = Absent | Null | Given 'a

record resource_grant =
  rg_type :: string
  rg_id :: int
  rg_permissions :: "string option"

record grants_param =
  gp_global :: "gval param"
  gp_resources :: "resource_grant list param"

record user_params =
  p_grants :: "grants_param param"
  p_restricted :: "bool param"

subsection \<open>\<open>_normalize_grants_params\<close>\<close>

fun normalize_resources :: "resource_grant list \<Rightarrow> grants_doc \<Rightarrow> error + grants_doc" where
  "normalize_resources [] result = Inr result"
| "normalize_resources (rg # rgs) result =
     (let entity_type = str_lower (rg_type rg);
          result1 = (if map_of result entity_type = None
                     then AList.update entity_type (GList []) result else result)
      in case map_of result1 entity_type of
           Some (GList gs) \<Rightarrow>
             normalize_resources rgs
               (AList.update entity_type
                  (GList (gs @ [\<lparr>grant_id = rg_id rg, grant_label = None,
                                 permissions = rg_permissions rg\<rparr>])) result1)
         | _ \<Rightarrow> Inl (AttributeError ''append''))"

definition normalize_grants_params :: "grants_param \<Rightarrow> error + grants_doc" where
  "normalize_grants_params grants =
     (let result = (case gp_global grants of
                      Absent \<Rightarrow> []
                    | Null \<Rightarrow> [(''global'', GNull)]
                    | Given g \<Rightarrow> [(''global'', g)])
      in case gp_resources grants of
           Absent \<Rightarrow> Inr result
         | Null \<Rightarrow> Inr result
         | Given rgs \<Rightarrow> normalize_resources rgs result)"

subsection \<open>\<open>_compare_grants\<close>\<close>

fun compare_loop :: "grants_doc \<Rightarrow> grants_doc \<Rightarrow> grants_doc" where
  "compare_loop [] normalized_grants = normalized_grants"
| "compare_loop ((key, resource) # rest) normalized_grants =
     (case resource of
        GList gs \<Rightarrow>
          (let result_list = filter (\<lambda>g. permissions g \<noteq> None) gs
           in compare_loop rest
                (if length result_list > 0
                 then AList.update key (GList result_list) normalized_grants
                 else normalized_grants))
      | _ \<Rightarrow> compare_loop rest normalized_grants)"

definition compare_grants :: "grants_doc \<Rightarrow> grants_doc \<Rightarrow> error + bool" where
  "compare_grants old_grants new_grants =
     (case map_of old_grants ''global'' of
        None \<Rightarrow> Inl (KeyError ''global'')
      | Some g \<Rightarrow>
          Inr (dict_eq_by gval_eq new_grants (compare_loop old_grants [(''global'', g)])))"

subsection \<open>\<open>_merge_grants\<close>\<close>

text \<open>\<open>new_grant_map\<close>: category, then grant id, then the grant of the parameters.\<close>

type_synonym grant_map = "(string \<times> (int \<times> grant) list) list"

fun index_grants :: "string \<Rightarrow> grant list \<Rightarrow> grant_map \<Rightarrow> grant_map" where
  "index_grants key [] m = m"
| "index_grants key (g # gs) m =
     (let m1 = (if map_of m key = None then AList.update key [] m else m);
          inner = (case map_of m1 key of None \<Rightarrow> [] | Some d \<Rightarrow> d)
      in index_grants key gs (AList.update key (AList.update (grant_id g) g inner) m1))"

fun build_grant_map :: "grants_doc \<Rightarrow> grant_map \<Rightarrow> grant_map" where
  "build_grant_map [] m = m"
| "build_grant_map ((key, resource) # rest) m =
     (case resource of
        GList gs \<Rightarrow> build_grant_map rest (index_grants key gs m)
      | _ \<Rightarrow> build_grant_map rest m)"

definition revoked :: "grant \<Rightarrow> grant" where
  "revoked g = \<lparr>grant_id = grant_id g, grant_label = None, permissions = None\<rparr>"

definition merge_one :: "grant_map \<Rightarrow> string \<Rightarrow> grant \<Rightarrow> grant" where
  "merge_one m key g =
     (case map_of m key of
        None \<Rightarrow> revoked g
      | Some d \<Rightarrow> (case map_of d (grant_id g) of None \<Rightarrow> revoked g | Some n \<Rightarrow> n))"

fun merge_resource :: "grant_map \<Rightarrow> string \<Rightarrow> grant list \<Rightarrow> grant list \<Rightarrow> grant list" where
  "merge_resource m key [] acc = acc"
| "merge_resource m key (g # gs) acc = merge_resource m key gs (acc @ [merge_one m key g])"

fun merge_loop :: "grant_map \<Rightarrow> grants_doc \<Rightarrow> grants_doc \<Rightarrow> error + grants_doc" where
  "merge_loop m [] result = Inr result"
| "merge_loop m ((key, resource) # rest) result =
     (case resource of
        GList gs \<Rightarrow>
          (let result1 = (if map_of result key = None
                          then AList.update key (GList []) result else result)
           in case map_of result1 key of
                Some (GList acc) \<Rightarrow>
                  merge_loop m rest
                    (AList.update key (GList (merge_resource m key gs acc)) result1)
              | _ \<Rightarrow> Inl (AttributeError ''append''))
      | _ \<Rightarrow> merge_loop m rest result)"

definition merge_grants :: "grants_doc \<Rightarrow> grants_doc \<Rightarrow> error + grants_doc" where
  "merge_grants old_grants param_grants =
     (case map_of param_grants ''global'' of
        None \<Rightarrow> Inl (KeyError ''global'')
      | Some g \<Rightarrow>
          merge_loop (build_grant_map param_grants []) old_grants
            [(''global'', if truthy g then g else GDict [])])"

subsection \<open>\<open>_update_grants\<close>\<close>

text \<open>
  The trace of \<open>_update_grants\<close>: the GET and the PUT on the grants endpoint and the
  entries of the action ledger, in order, with the error that ended the run, if any.
  \<open>raw\<close> is what the GET returns; \<open>_get_raw_grants\<close> turns an exception into \<open>self.fail\<close>.
\<close>

datatype user_event = GetGrants | PutGrants grants_doc | UserAction string

definition update_grants ::
  "user_params \<Rightarrow> (error + grants_doc) \<Rightarrow> user_event list \<times> error option" where
  "update_grants params raw =
     (case p_grants params of
        Absent \<Rightarrow> ([], None)
      | Null \<Rightarrow> ([], None)
      | Given grants \<Rightarrow>
          (case p_restricted params of
             Absent \<Rightarrow> ([], Some (KeyError ''restricted''))
           | Null \<Rightarrow> ([], None)
           | Given False \<Rightarrow> ([], None)
           | Given True \<Rightarrow>
               (case normalize_grants_params grants of
                  Inl e \<Rightarrow> ([], Some e)
                | Inr param_grants \<Rightarrow>
                    (case raw of
                       Inl e \<Rightarrow> ([GetGrants], Some (ModuleFail ''failed to get user grants''))
                     | Inr raw_grants \<Rightarrow>
                         (case compare_grants raw_grants param_grants of
                            Inl e \<Rightarrow> ([GetGrants], Some e)
                          | Inr True \<Rightarrow> ([GetGrants], None)
                          | Inr False \<Rightarrow>
                              (case merge_grants raw_grants param_grants of
                                 Inl e \<Rightarrow> ([GetGrants], Some e)
                               | Inr put_body \<Rightarrow>
                                   ([GetGrants, PutGrants put_body,
                                     UserAction ''Updated grants''], None)))))))"


subsection \<open>Reading the documents\<close>

text \<open>
  Auxiliary notions for the statements: the grant \<open>new_grant_map\<close> holds for a category
  and an id, the grants the parameters list for a category, and what the merge loop has
  stored when it ends.
\<close>

definition gm_lookup :: "grant_map \<Rightarrow> string \<Rightarrow> int \<Rightarrow> grant option" where
  "gm_lookup m key i = (case map_of m key of None \<Rightarrow> None | Some d \<Rightarrow> map_of d i)"

definition desired_grants :: "grants_doc \<Rightarrow> string \<Rightarrow> grant list" where
  "desired_grants param_grants key =
     (case map_of param_grants key of Some (GList ds) \<Rightarrow> ds | _ \<Rightarrow> [])"

definition list_or_absent :: "grants_doc \<Rightarrow> string \<Rightarrow> bool" where
  "list_or_absent result key = (case map_of result key of None \<Rightarrow> True | Some (GList acc) \<Rightarrow> True | Some _ \<Rightarrow> False)"

definition acc_of :: "grants_doc \<Rightarrow> string \<Rightarrow> grant list" where
  "acc_of result key = (case map_of result key of Some (GList acc) \<Rightarrow> acc | _ \<Rightarrow> [])"

definition merged_doc :: "grant_map \<Rightarrow> grants_doc \<Rightarrow> grants_doc \<Rightarrow> grants_doc \<Rightarrow> bool" where
  "merged_doc m old result res =
     (\<forall>key. map_of res key =
        (case map_of old key of
           Some (GList rs) \<Rightarrow> Some (GList (acc_of result key @ map (merge_one m key) rs))
         | _ \<Rightarrow> map_of result key))"



section \<open>lke\_cluster.py: the node pools of \<open>_update_cluster\<close>\<close>

text \<open>
  The model starts where \<open>_update_cluster\<close> copies \<open>cluster.pools\<close> into
  \<open>existing_pools\<close>.  A remote pool carries its id, its type id, its node count and the
  three values the loops compare (\<open>autoscaler\<close>, \<open>taints\<close>, \<open>labels\<close>); their type \<open>'v\<close> is
  left open, they are only compared with \<open>!=\<close> and assigned.  A desired pool is the
  dictionary of the parameters after \<open>filter_null_values_recursive\<close>: \<open>type\<close> and \<open>count\<close>
  are required, the other three keys may be absent (\<open>None\<close>).
\<close>

record 'v pool =
  pool_id :: int
  pool_type :: string
  pool_count :: int
  pool_autoscaler :: 'v
  pool_taints :: 'v
  pool_labels :: 'v

record 'v pool_spec =
  spec_type :: string
  spec_count :: int
  spec_autoscaler :: "'v option"
  spec_taints :: "'v option"
  spec_labels :: "'v option"

text \<open>
  The trace: the entries of the action ledger (\<open>register_action\<close>) and the remote calls
  (\<open>save\<close>, \<open>node_pool_create\<close>, \<open>delete\<close>), in the order the source issues them.
  \<open>PoolSave p\<close> is \<open>save()\<close> on the pool object as it stands at that moment.
  Remote calls are taken to succeed; a failing call ends the run at that event.
\<close>

datatype 'v pool_event =
    UpdatedAutoscaler int
  | UpdatedTaints int
  | UpdatedLabels int
  | Resized int int int
  | CreatedPool int string
  | DeletedPool int
  | PoolSave "'v pool"
  | NodePoolCreate string int "'v option"
  | PoolDelete int

text \<open>
  The state of the three loops.  \<open>ps_bound\<close> is not a variable of the source: it records
  the pair (index of the desired pool, index of the remote pool) each time the source
  marks a remote pool as kept for a desired pool.
\<close>

record 'v pools_state =
  existing_pools :: "'v pool list"
  should_keep :: "bool list"
  pools_handled :: "bool list"
  ps_trace :: "'v pool_event list"
  ps_bound :: "(nat \<times> nat) list"

text \<open>
  Both inner loops run over \<open>existing_pools\<close> in order, skip the pools already kept, and
  \<open>break\<close> at the first pool that passes the test: a search for the first such index.
\<close>

definition first_unkept :: "('v pool \<Rightarrow> bool) \<Rightarrow> 'v pools_state \<Rightarrow> nat option" where
  "first_unkept P s =
     find (\<lambda>i. \<not> should_keep s ! i \<and> P (existing_pools s ! i))
       [0..<length (existing_pools s)]"

subsection \<open>First loop: a pool of the same count and type (lines 796 to 847)\<close>

definition save_autoscaler :: "'v pool_spec \<Rightarrow> nat \<Rightarrow> 'v pools_state \<Rightarrow> 'v pools_state" where
  "save_autoscaler pool i s =
     (let current_pool = existing_pools s ! i in
      case spec_autoscaler pool of
        None \<Rightarrow> s
      | Some a \<Rightarrow>
          if pool_autoscaler current_pool \<noteq> a
          then (let p = current_pool\<lparr>pool_autoscaler := a\<rparr>
                in s\<lparr>existing_pools := (existing_pools s)[i := p],
                     ps_trace := ps_trace s @ [UpdatedAutoscaler (pool_id current_pool), PoolSave p]\<rparr>)
          else s)"

definition save_taints :: "'v pool_spec \<Rightarrow> nat \<Rightarrow> 'v pools_state \<Rightarrow> 'v pools_state" where
  "save_taints pool i s =
     (let current_pool = existing_pools s ! i in
      case spec_taints pool of
        None \<Rightarrow> s
      | Some t \<Rightarrow>
          if pool_taints current_pool \<noteq> t
          then (let p = current_pool\<lparr>pool_taints := t\<rparr>
                in s\<lparr>existing_pools := (existing_pools s)[i := p],
                     ps_trace := ps_trace s @ [UpdatedTaints (pool_id current_pool), PoolSave p]\<rparr>)
          else s)"

definition save_labels :: "'v pool_spec \<Rightarrow> nat \<Rightarrow> 'v pools_state \<Rightarrow> 'v pools_state" where
  "save_labels pool i s =
     (let current_pool = existing_pools s ! i in
      case spec_labels pool of
        None \<Rightarrow> s
      | Some l \<Rightarrow>
          if pool_labels current_pool \<noteq> l
          then (let p = current_pool\<lparr>pool_labels := l\<rparr>
                in s\<lparr>existing_pools := (existing_pools s)[i := p],
                     ps_trace := ps_trace s @ [UpdatedLabels (pool_id current_pool), PoolSave p]\<rparr>)
          else s)"

definition exact_step :: "nat \<times> 'v pool_spec \<Rightarrow> 'v pools_state \<Rightarrow> 'v pools_state" where
  "exact_step kp s =
     (case kp of (k, pool) \<Rightarrow>
        (case first_unkept
                (\<lambda>current_pool. pool_count current_pool = spec_count pool \<and>
                                 pool_type current_pool = spec_type pool) s of
           None \<Rightarrow> s
         | Some i \<Rightarrow>
             (let s1 = save_labels pool i (save_taints pool i (save_autoscaler pool i s))
              in s1\<lparr>pools_handled := (pools_handled s1)[k := True],
                    should_keep := (should_keep s1)[i := True],
                    ps_bound := ps_bound s1 @ [(k, i)]\<rparr>)))"

subsection \<open>Second loop: a pool of the same type, or a new pool (lines 849 to 932)\<close>

text \<open>Each stage sets the field on the pool object and raises the flag \<open>should_update\<close>.\<close>

definition stage_count ::
  "'v pool_spec \<Rightarrow> nat \<Rightarrow> 'v pools_state \<times> bool \<Rightarrow> 'v pools_state \<times> bool" where
  "stage_count pool k sb =
     (case sb of (s, should_update) \<Rightarrow>
        (let existing_pool = existing_pools s ! k in
         if pool_count existing_pool \<noteq> spec_count pool
         then (s\<lparr>existing_pools :=
                    (existing_pools s)[k := existing_pool\<lparr>pool_count := spec_count pool\<rparr>],
                  ps_trace := ps_trace s @
                    [Resized (pool_id existing_pool) (pool_count existing_pool) (spec_count pool)]\<rparr>,
               True)
         else (s, should_update)))"

definition stage_autoscaler ::
  "'v pool_spec \<Rightarrow> nat \<Rightarrow> 'v pools_state \<times> bool \<Rightarrow> 'v pools_state \<times> bool" where
  "stage_autoscaler pool k sb =
     (case sb of (s, should_update) \<Rightarrow>
        (let existing_pool = existing_pools s ! k in
         case spec_autoscaler pool of
           None \<Rightarrow> (s, should_update)
         | Some a \<Rightarrow>
             if pool_autoscaler existing_pool \<noteq> a
             then (s\<lparr>existing_pools :=
                        (existing_pools s)[k := existing_pool\<lparr>pool_autoscaler := a\<rparr>],
                      ps_trace := ps_trace s @ [UpdatedAutoscaler (pool_id existing_pool)]\<rparr>,
                   True)
             else (s, should_update)))"

definition stage_taints ::
  "'v pool_spec \<Rightarrow> nat \<Rightarrow> 'v pools_state \<times> bool \<Rightarrow> 'v pools_state \<times> bool" where
  "stage_taints pool k sb =
     (case sb of (s, should_update) \<Rightarrow>
        (let existing_pool = existing_pools s ! k in
         case spec_taints pool of
           None \<Rightarrow> (s, should_update)
         | Some t \<Rightarrow>
             if pool_taints existing_pool \<noteq> t
             then (s\<lparr>existing_pools :=
                        (existing_pools s)[k := existing_pool\<lparr>pool_taints := t\<rparr>],
                      ps_trace := ps_trace s @ [UpdatedTaints (pool_id existing_pool)]\<rparr>,
                   True)
             else (s, should_update)))"

definition stage_labels ::
  "'v pool_spec \<Rightarrow> nat \<Rightarrow> 'v pools_state \<times> bool \<Rightarrow> 'v pools_state \<times> bool" where
  "stage_labels pool k sb =
     (case sb of (s, should_update) \<Rightarrow>
        (let existing_pool = existing_pools s ! k in
         case spec_labels pool of
           None \<Rightarrow> (s, should_update)
         | Some l \<Rightarrow>
             if pool_labels existing_pool \<noteq> l
             then (s\<lparr>existing_pools :=
                        (existing_pools s)[k := existing_pool\<lparr>pool_labels := l\<rparr>],
                      ps_trace := ps_trace s @ [UpdatedLabels (pool_id existing_pool)]\<rparr>,
                   True)
             else (s, should_update)))"

definition loose_step :: "nat \<times> 'v pool_spec \<Rightarrow> 'v pools_state \<Rightarrow> 'v pools_state" where
  "loose_step ip s =
     (case ip of (i, pool) \<Rightarrow>
        if pools_handled s ! i then s
        else
          (case first_unkept (\<lambda>existing_pool. pool_type existing_pool = spec_type pool) s of
             Some k \<Rightarrow>
               (case stage_labels pool k (stage_taints pool k
                       (stage_autoscaler pool k (stage_count pool k (s, False)))) of
                  (s1, should_update) \<Rightarrow>
                    (let s2 = (if should_update
                               then s1\<lparr>ps_trace := ps_trace s1 @ [PoolSave (existing_pools s1 ! k)]\<rparr>
                               else s1)
                     in s2\<lparr>should_keep := (should_keep s2)[k := True],
                           ps_bound := ps_bound s2 @ [(i, k)]\<rparr>))
           | None \<Rightarrow>
               s\<lparr>ps_trace := ps_trace s @
                    [CreatedPool (spec_count pool) (spec_type pool),
                     NodePoolCreate (spec_type pool) (spec_count pool) (spec_autoscaler pool)]\<rparr>))"

subsection \<open>Third loop: the pools never kept (lines 934 to 939)\<close>

definition delete_unkept :: "'v pools_state \<Rightarrow> 'v pools_state" where
  "delete_unkept s =
     s\<lparr>ps_trace := ps_trace s @
          concat (map (\<lambda>i. if should_keep s ! i then []
                           else [DeletedPool (pool_id (existing_pools s ! i)),
                                 PoolDelete (pool_id (existing_pools s ! i))])
                    [0..<length (existing_pools s)])\<rparr>"

definition init_pools :: "'v pool_spec list \<Rightarrow> 'v pool list \<Rightarrow> 'v pools_state" where
  "init_pools pools cluster_pools =
     \<lparr>existing_pools = cluster_pools,
      should_keep = replicate (length cluster_pools) False,
      pools_handled = replicate (length pools) False,
      ps_trace = [],
      ps_bound = []\<rparr>"

definition exact_loop :: "'v pool_spec list \<Rightarrow> 'v pools_state \<Rightarrow> 'v pools_state" where
  "exact_loop pools s = fold exact_step (enumerate 0 pools) s"

definition loose_loop :: "'v pool_spec list \<Rightarrow> 'v pools_state \<Rightarrow> 'v pools_state" where
  "loose_loop pools s = fold loose_step (enumerate 0 pools) s"

definition update_pools :: "'v pool_spec list \<Rightarrow> 'v pool list \<Rightarrow> 'v pools_state" where
  "update_pools pools cluster_pools =
     delete_unkept (loose_loop pools (exact_loop pools (init_pools pools cluster_pools)))"

text \<open>The writes to a pool (\<open>save()\<close>) in a trace.\<close>

fun is_save :: "'v pool_event \<Rightarrow> bool" where
  "is_save (PoolSave p) = True"
| "is_save _ = False"


subsection \<open>What the loops do to one pool\<close>

text \<open>
  The body of each loop, read as a function of the one remote pool it works on: the pool
  it leaves and the events it adds.  The theorems below relate the loops to these.
\<close>

definition exact_autoscaler :: "'v pool_spec \<Rightarrow> 'v pool \<Rightarrow> 'v pool \<times> 'v pool_event list" where
  "exact_autoscaler p c =
     (case spec_autoscaler p of
        None \<Rightarrow> (c, [])
      | Some a \<Rightarrow>
          if pool_autoscaler c \<noteq> a
          then (c\<lparr>pool_autoscaler := a\<rparr>,
                [UpdatedAutoscaler (pool_id c), PoolSave (c\<lparr>pool_autoscaler := a\<rparr>)])
          else (c, []))"

definition exact_taints :: "'v pool_spec \<Rightarrow> 'v pool \<Rightarrow> 'v pool \<times> 'v pool_event list" where
  "exact_taints p c =
     (case spec_taints p of
        None \<Rightarrow> (c, [])
      | Some t \<Rightarrow>
          if pool_taints c \<noteq> t
          then (c\<lparr>pool_taints := t\<rparr>,
                [UpdatedTaints (pool_id c), PoolSave (c\<lparr>pool_taints := t\<rparr>)])
          else (c, []))"

definition exact_labels :: "'v pool_spec \<Rightarrow> 'v pool \<Rightarrow> 'v pool \<times> 'v pool_event list" where
  "exact_labels p c =
     (case spec_labels p of
        None \<Rightarrow> (c, [])
      | Some l \<Rightarrow>
          if pool_labels c \<noteq> l
          then (c\<lparr>pool_labels := l\<rparr>,
                [UpdatedLabels (pool_id c), PoolSave (c\<lparr>pool_labels := l\<rparr>)])
          else (c, []))"

definition exact_update :: "'v pool_spec \<Rightarrow> 'v pool \<Rightarrow> 'v pool \<times> 'v pool_event list" where
  "exact_update p c =
     (let (c1, e1) = exact_autoscaler p c;
          (c2, e2) = exact_taints p c1;
          (c3, e3) = exact_labels p c2
      in (c3, e1 @ e2 @ e3))"

definition loose_count :: "'v pool_spec \<Rightarrow> 'v pool \<Rightarrow> 'v pool \<times> 'v pool_event list \<times> bool" where
  "loose_count p c =
     (if pool_count c \<noteq> spec_count p
      then (c\<lparr>pool_count := spec_count p\<rparr>,
            [Resized (pool_id c) (pool_count c) (spec_count p)], True)
      else (c, [], False))"

definition loose_autoscaler :: "'v pool_spec \<Rightarrow> 'v pool \<Rightarrow> 'v pool \<times> 'v pool_event list \<times> bool" where
  "loose_autoscaler p c =
     (case spec_autoscaler p of
        None \<Rightarrow> (c, [], False)
      | Some a \<Rightarrow>
          if pool_autoscaler c \<noteq> a
          then (c\<lparr>pool_autoscaler := a\<rparr>, [UpdatedAutoscaler (pool_id c)], True)
          else (c, [], False))"

definition loose_taints :: "'v pool_spec \<Rightarrow> 'v pool \<Rightarrow> 'v pool \<times> 'v pool_event list \<times> bool" where
  "loose_taints p c =
     (case spec_taints p of
        None \<Rightarrow> (c, [], False)
      | Some t \<Rightarrow>
          if pool_taints c \<noteq> t
          then (c\<lparr>pool_taints := t\<rparr>, [UpdatedTaints (pool_id c)], True)
          else (c, [], False))"

definition loose_labels :: "'v pool_spec \<Rightarrow> 'v pool \<Rightarrow> 'v pool \<times> 'v pool_event list \<times> bool" where
  "loose_labels p c =
     (case spec_labels p of
        None \<Rightarrow> (c, [], False)
      | Some l \<Rightarrow>
          if pool_labels c \<noteq> l
          then (c\<lparr>pool_labels := l\<rparr>, [UpdatedLabels (pool_id c)], True)
          else (c, [], False))"

definition loose_update :: "'v pool_spec \<Rightarrow> 'v pool \<Rightarrow> 'v pool \<times> 'v pool_event list" where
  "loose_update p c =
     (case loose_count p c of (c1, e1, u1) \<Rightarrow>
      case loose_autoscaler p c1 of (c2, e2, u2) \<Rightarrow>
      case loose_taints p c2 of (c3, e3, u3) \<Rightarrow>
      case loose_labels p c3 of (c4, e4, u4) \<Rightarrow>
        (c4, e1 @ e2 @ e3 @ e4 @ (if u1 \<or> u2 \<or> u3 \<or> u4 then [PoolSave c4] else [])))"

definition create_events :: "'v pool_spec \<Rightarrow> 'v pool_event list" where
  "create_events p =
     [CreatedPool (spec_count p) (spec_type p),
      NodePoolCreate (spec_type p) (spec_count p) (spec_autoscaler p)]"

definition exact_test :: "'v pool_spec \<Rightarrow> 'v pool \<Rightarrow> bool" where
  "exact_test p c = (pool_count c = spec_count p \<and> pool_type c = spec_type p)"

definition type_test :: "'v pool_spec \<Rightarrow> 'v pool \<Rightarrow> bool" where
  "type_test p c = (pool_type c = spec_type p)"


fun is_create_event :: "'v pool_event \<Rightarrow> bool" where
  "is_create_event (CreatedPool n t) = True"
| "is_create_event (NodePoolCreate t n a) = True"
| "is_create_event _ = False"


text \<open>
  What holds while the first loop is about to handle the desired pool \<open>n\<close>, and while the
  second loop is: every recorded pair names a remote pool that is marked as kept, no
  desired pool and no remote pool occurs in two pairs, and the pools created so far are
  those of the desired pools already handled that are in no pair.
\<close>

definition unbound_creates ::
  "(nat \<times> nat) list \<Rightarrow> (nat \<times> 'v pool_spec) list \<Rightarrow> 'v pool_event list" where
  "unbound_creates bs kps =
     concat (map (\<lambda>(k, p). if k \<in> fst ` set bs then [] else create_events p) kps)"

definition inv_exact :: "nat \<Rightarrow> nat \<Rightarrow> nat \<Rightarrow> 'v pools_state \<Rightarrow> bool" where
  "inv_exact M N n s =
     (length (pools_handled s) = M \<and> length (existing_pools s) = N \<and>
      length (should_keep s) = N \<and>
      (\<forall>(k, i)\<in>set (ps_bound s). k < n \<and> i < N \<and> should_keep s ! i \<and> pools_handled s ! k) \<and>
      (\<forall>k<M. pools_handled s ! k \<longrightarrow> k \<in> fst ` set (ps_bound s)) \<and>
      distinct (map fst (ps_bound s)) \<and> distinct (map snd (ps_bound s)) \<and>
      filter is_create_event (ps_trace s) = [])"

definition inv_loose :: "'v pool_spec list \<Rightarrow> nat \<Rightarrow> nat \<Rightarrow> 'v pools_state \<Rightarrow> bool" where
  "inv_loose ps N n s =
     (length (pools_handled s) = length ps \<and> length (existing_pools s) = N \<and>
      length (should_keep s) = N \<and>
      (\<forall>(k, i)\<in>set (ps_bound s).
         k < length ps \<and> i < N \<and> should_keep s ! i \<and> (pools_handled s ! k \<or> k < n)) \<and>
      (\<forall>k<length ps. pools_handled s ! k \<longrightarrow> k \<in> fst ` set (ps_bound s)) \<and>
      distinct (map fst (ps_bound s)) \<and> distinct (map snd (ps_bound s)) \<and>
      filter is_create_event (ps_trace s) =
        unbound_creates (ps_bound s) (enumerate 0 (take n ps)))"


subsection \<open>The decision for one desired pool\<close>

text \<open>
  Read from the remote pools \<open>R\<close> alone: the first pool of the count and type of a desired
  pool, the first pool of its type, the pool it ends bound to, the events of the first and
  of the second loop for it, and the deletes of the pools no desired pool is bound to.
  \<open>inv_first\<close> and \<open>inv_second\<close> say that the state of the loops agrees with this reading
  when the desired pool \<open>n\<close> is about to be handled.
\<close>

definition ex_idx :: "'v pool list \<Rightarrow> 'v pool_spec \<Rightarrow> nat option" where
  "ex_idx R p = find (\<lambda>i. exact_test p (R ! i)) [0..<length R]"

definition ty_idx :: "'v pool list \<Rightarrow> 'v pool_spec \<Rightarrow> nat option" where
  "ty_idx R p = find (\<lambda>i. type_test p (R ! i)) [0..<length R]"

definition bind_idx :: "'v pool list \<Rightarrow> 'v pool_spec \<Rightarrow> nat option" where
  "bind_idx R p = (case ex_idx R p of Some i \<Rightarrow> Some i | None \<Rightarrow> ty_idx R p)"

definition events1 :: "'v pool list \<Rightarrow> 'v pool_spec \<Rightarrow> 'v pool_event list" where
  "events1 R p = (case ex_idx R p of None \<Rightarrow> [] | Some i \<Rightarrow> snd (exact_update p (R ! i)))"

definition events2 :: "'v pool list \<Rightarrow> 'v pool_spec \<Rightarrow> 'v pool_event list" where
  "events2 R p =
     (case ex_idx R p of
        Some i \<Rightarrow> []
      | None \<Rightarrow>
          (case ty_idx R p of
             Some i \<Rightarrow> snd (loose_update p (R ! i))
           | None \<Rightarrow> create_events p))"

definition unbound_deletes :: "'v pool list \<Rightarrow> 'v pool_spec set \<Rightarrow> 'v pool_event list" where
  "unbound_deletes R P =
     concat (map (\<lambda>i. if \<exists>p\<in>P. bind_idx R p = Some i then []
                      else [DeletedPool (pool_id (R ! i)), PoolDelete (pool_id (R ! i))])
               [0..<length R])"

definition inv_first :: "'v pool list \<Rightarrow> 'v pool_spec list \<Rightarrow> nat \<Rightarrow> 'v pools_state \<Rightarrow> bool" where
  "inv_first R ps n s =
     (length (existing_pools s) = length R \<and> length (should_keep s) = length R \<and>
      length (pools_handled s) = length ps \<and>
      (\<forall>i<length R. should_keep s ! i = (\<exists>p\<in>set (take n ps). ex_idx R p = Some i)) \<and>
      (\<forall>i<length R. \<not> should_keep s ! i \<longrightarrow> existing_pools s ! i = R ! i) \<and>
      (\<forall>i<length R. pool_type (existing_pools s ! i) = pool_type (R ! i) \<and>
                     pool_count (existing_pools s ! i) = pool_count (R ! i) \<and>
                     pool_id (existing_pools s ! i) = pool_id (R ! i)) \<and>
      (\<forall>k<length ps. pools_handled s ! k = (k < n \<and> ex_idx R (ps ! k) \<noteq> None)) \<and>
      ps_trace s = concat (map (events1 R) (take n ps)))"

definition inv_second :: "'v pool list \<Rightarrow> 'v pool_spec list \<Rightarrow> nat \<Rightarrow> 'v pools_state \<Rightarrow> bool" where
  "inv_second R ps n s =
     (length (existing_pools s) = length R \<and> length (should_keep s) = length R \<and>
      length (pools_handled s) = length ps \<and>
      (\<forall>i<length R. should_keep s ! i =
         ((\<exists>p\<in>set ps. ex_idx R p = Some i) \<or>
          (\<exists>p\<in>set (take n ps). ex_idx R p = None \<and> ty_idx R p = Some i))) \<and>
      (\<forall>i<length R. \<not> should_keep s ! i \<longrightarrow> existing_pools s ! i = R ! i) \<and>
      (\<forall>i<length R. pool_type (existing_pools s ! i) = pool_type (R ! i) \<and>
                     pool_id (existing_pools s ! i) = pool_id (R ! i)) \<and>
      (\<forall>k<length ps. pools_handled s ! k = (ex_idx R (ps ! k) \<noteq> None)) \<and>
      ps_trace s = concat (map (events1 R) ps) @ concat (map (events2 R) (take n ps)))"


section \<open>nodebalancer.py: the configs of a NodeBalancer\<close>

text \<open>
  A desired config is the dictionary of the parameters (every option of the argument
  spec is a key, \<open>None\<close> when it was not given).  A remote config is an object with its id
  and its JSON document.
\<close>

type_synonym config = "jval dict"

record remote_config =
  config_id :: int
  raw_json :: "jval dict"

text \<open>
  Modelled from the spec: \<open>filter_null_values\<close> and \<open>dict_select_matching\<close> of
  \<open>module_utils/linode_helper.py\<close>, which is not among the sources.  The spec (4.5, step 1)
  has the match be "structural equality restricted to the subset of fields the caller
  actually specified (ignoring fields the caller omitted ...)": \<open>filter_null_values\<close> drops
  the keys whose value is \<open>None\<close>, and \<open>dict_select_matching\<close> returns both dictionaries
  restricted to the keys they share.
\<close>

definition filter_null_values :: "jval dict \<Rightarrow> jval dict" where
  "filter_null_values d = filter (\<lambda>(k, v). v \<noteq> JNull) d"

definition dict_select_matching :: "jval dict \<Rightarrow> jval dict \<Rightarrow> jval dict \<times> jval dict" where
  "dict_select_matching a b =
     (filter (\<lambda>(k, v). map_of b k \<noteq> None) a, filter (\<lambda>(k, v). map_of a k \<noteq> None) b)"

subsection \<open>\<open>_check_config_exists\<close>\<close>

text \<open>The test of the loop body, for one remote config.\<close>

definition config_matches :: "config \<Rightarrow> remote_config \<Rightarrow> bool" where
  "config_matches tmp_config remote_config =
     (case dict_select_matching (filter_null_values tmp_config) (raw_json remote_config) of
        (config_match, remote_config_match) \<Rightarrow> dict_eq config_match remote_config_match)"

text \<open>
  \<open>target\<close> is a Python set of objects; the list gives its elements in the order the
  \<open>for\<close> loop visits them.  The two \<open>pop\<close> calls raise \<open>KeyError\<close> for a missing key.
\<close>

definition check_config_exists ::
  "remote_config list \<Rightarrow> config \<Rightarrow> error + (bool \<times> remote_config option)" where
  "check_config_exists target config =
     (case dict_pop ''ssl_cert'' config of
        Inl e \<Rightarrow> Inl e
      | Inr (cert, tmp1) \<Rightarrow>
          (case dict_pop ''ssl_key'' tmp1 of
             Inl e \<Rightarrow> Inl e
           | Inr (key, tmp_config) \<Rightarrow>
               (case find (config_matches tmp_config) target of
                  Some remote_config \<Rightarrow> Inr (True, Some remote_config)
                | None \<Rightarrow> Inr (False, None))))"

subsection \<open>\<open>_handle_configs\<close>: the matching loop\<close>

text \<open>
  \<open>to_delete = remote_configs\<close> gives the set of remote configs a second name: it is one
  object, so \<open>to_delete.remove(remote_config)\<close> also takes the config out of the set
  \<open>_check_config_exists\<close> searches.  The field \<open>to_delete\<close> is that one set.
\<close>

record nb_plan =
  to_create :: "(config \<times> remote_config option) list"
  to_update :: "(config \<times> remote_config) list"
  to_delete :: "remote_config list"

definition config_get_truthy :: "string \<Rightarrow> config \<Rightarrow> bool" where
  "config_get_truthy k config = (case map_of config k of None \<Rightarrow> False | Some v \<Rightarrow> jtruthy v)"

fun plan_configs :: "config list \<Rightarrow> nb_plan \<Rightarrow> error + nb_plan" where
  "plan_configs [] p = Inr p"
| "plan_configs (config # rest) p =
     (case check_config_exists (to_delete p) config of
        Inl e \<Rightarrow> Inl e
      | Inr (config_exists, remote_config) \<Rightarrow>
          if \<not> config_exists
          then plan_configs rest (p\<lparr>to_create := to_create p @ [(config, remote_config)]\<rparr>)
          else if config_get_truthy ''recreate'' config
          then plan_configs rest (p\<lparr>to_create := to_create p @ [(config, remote_config)]\<rparr>)
          else (case remote_config of
                  None \<Rightarrow> Inl (KeyError ''remove'')
                | Some r \<Rightarrow>
                    plan_configs rest
                      (p\<lparr>to_update := to_update p @ [(config, r)],
                         to_delete := remove1 r (to_delete p)\<rparr>)))"

definition init_plan :: "remote_config list \<Rightarrow> nb_plan" where
  "init_plan remote_configs = \<lparr>to_create = [], to_update = [], to_delete = remote_configs\<rparr>"

subsection \<open>\<open>_handle_configs\<close>: the three loops that apply the plan\<close>

text \<open>
  The trace: the ledger entries and the remote calls.  \<open>_handle_config_nodes\<close> is one event
  here, with the config it works on and the desired nodes.  \<open>new_id n\<close> is the id the remote
  gives to the \<open>n\<close>-th config created in this run.
\<close>

datatype nb_event =
    DeletedConfig int
  | ConfigDelete int
  | ConfigCreate config
  | CreatedConfig int
  | HandleConfigNodes int jval

definition delete_config_register :: "remote_config \<Rightarrow> nb_event list" where
  "delete_config_register c = [DeletedConfig (config_id c), ConfigDelete (config_id c)]"

definition nodes_step :: "int \<Rightarrow> config \<Rightarrow> nb_event list" where
  "nodes_step cid config =
     (case map_of config ''nodes'' of
        None \<Rightarrow> []
      | Some JNull \<Rightarrow> []
      | Some nodes \<Rightarrow> [HandleConfigNodes cid nodes])"

fun create_loop :: "(nat \<Rightarrow> int) \<Rightarrow> nat \<Rightarrow> (config \<times> remote_config option) list \<Rightarrow> nb_event list" where
  "create_loop new_id n [] = []"
| "create_loop new_id n ((config, remote_config) # rest) =
     [ConfigCreate config, CreatedConfig (new_id n)] @ nodes_step (new_id n) config @
     create_loop new_id (Suc n) rest"

definition delete_loop :: "remote_config list \<Rightarrow> nb_event list" where
  "delete_loop cs = concat (map delete_config_register cs)"

definition update_loop :: "(config \<times> remote_config) list \<Rightarrow> nb_event list" where
  "update_loop us = concat (map (\<lambda>(config, remote_config). nodes_step (config_id remote_config) config) us)"

definition apply_plan :: "(nat \<Rightarrow> int) \<Rightarrow> nb_plan \<Rightarrow> nb_event list" where
  "apply_plan new_id p =
     delete_loop (to_delete p) @ create_loop new_id 0 (to_create p) @ update_loop (to_update p)"

text \<open>\<open>new_configs = self.module.params.get("configs") or []\<close>.\<close>

definition handle_configs ::
  "(nat \<Rightarrow> int) \<Rightarrow> config list option \<Rightarrow> remote_config list \<Rightarrow> error + nb_event list" where
  "handle_configs new_id configs remote_configs =
     (let new_configs = (case configs of None \<Rightarrow> [] | Some cs \<Rightarrow> cs)
      in case plan_configs new_configs (init_plan remote_configs) of
           Inl e \<Rightarrow> Inl e
         | Inr p \<Rightarrow> Inr (apply_plan new_id p))"


subsection \<open>Configs that differ in \<open>ssl_cert\<close> and \<open>ssl_key\<close> only\<close>

text \<open>
  \<open>ssl_variant c c'\<close>: both dictionaries have the same keys, and the same value under every
  key but \<open>ssl_cert\<close> and \<open>ssl_key\<close>.  \<open>redact\<close> takes the two fields out of the payload of
  a create call; two plans are related by \<open>plan_rel\<close> when they pair variants of the same
  configs with the same remote configs.
\<close>

definition strip_ssl :: "config \<Rightarrow> config" where
  "strip_ssl c = filter (\<lambda>(k, v). k \<noteq> ''ssl_cert'' \<and> k \<noteq> ''ssl_key'') c"

definition ssl_variant :: "config \<Rightarrow> config \<Rightarrow> bool" where
  "ssl_variant c c' = (map fst c = map fst c' \<and> strip_ssl c = strip_ssl c')"

fun redact :: "nb_event \<Rightarrow> nb_event" where
  "redact (ConfigCreate c) = ConfigCreate (strip_ssl c)"
| "redact e = e"

definition plan_rel :: "nb_plan \<Rightarrow> nb_plan \<Rightarrow> bool" where
  "plan_rel p p' =
     (list_all2 (\<lambda>x y. ssl_variant (fst x) (fst y) \<and> snd x = snd y) (to_create p) (to_create p') \<and>
      list_all2 (\<lambda>x y. ssl_variant (fst x) (fst y) \<and> snd x = snd y) (to_update p) (to_update p') \<and>
      to_delete p = to_delete p')"


subsection \<open>Pairs of a desired and a remote config\<close>

text \<open>
  \<open>nb_bindings\<close>: the pairs the matching loop has formed, a remote config with the desired
  config it was found for (for replacement in \<open>to_create\<close>, for keeping in \<open>to_update\<close>).
  \<open>plan_inv\<close>: what holds of a plan throughout the loop.
\<close>

definition nb_bindings :: "nb_plan \<Rightarrow> (config \<times> remote_config) list" where
  "nb_bindings p =
     concat (map (\<lambda>(c, ro). case ro of None \<Rightarrow> [] | Some r \<Rightarrow> [(c, r)]) (to_create p)) @
     to_update p"

definition plan_inv :: "nb_plan \<Rightarrow> bool" where
  "plan_inv p = (distinct (to_delete p) \<and> distinct (map snd (to_update p)) \<and>
                 set (map snd (to_update p)) \<inter> set (to_delete p) = {})"


subsection \<open>The decision for one desired config\<close>

text \<open>
  Read from the set of remote configs alone: the remote config found for a desired
  config, and the entries the desired configs put in \<open>to_create\<close> and in \<open>to_update\<close>.
  \<open>unambiguous\<close>: no remote config passes the test of two entries of the desired list.
\<close>

definition has_ssl_keys :: "config \<Rightarrow> bool" where
  "has_ssl_keys c = (''ssl_cert'' \<in> set (map fst c) \<and> ''ssl_key'' \<in> set (map fst c))"

definition match_in :: "remote_config list \<Rightarrow> config \<Rightarrow> remote_config option" where
  "match_in remote c = find (config_matches (strip_ssl c)) remote"

definition creates_of :: "remote_config list \<Rightarrow> config list \<Rightarrow> (config \<times> remote_config option) list" where
  "creates_of remote cs =
     concat (map (\<lambda>c. case match_in remote c of
                         None \<Rightarrow> [(c, None)]
                       | Some r \<Rightarrow> if config_get_truthy ''recreate'' c then [(c, Some r)] else [])
               cs)"

definition updates_of :: "remote_config list \<Rightarrow> config list \<Rightarrow> (config \<times> remote_config) list" where
  "updates_of remote cs =
     concat (map (\<lambda>c. case match_in remote c of
                         None \<Rightarrow> []
                       | Some r \<Rightarrow> if config_get_truthy ''recreate'' c then [] else [(c, r)])
               cs)"

definition unambiguous :: "remote_config list \<Rightarrow> config list \<Rightarrow> bool" where
  "unambiguous remote cs =
     (\<forall>r\<in>set remote. length (filter (\<lambda>c. config_matches (strip_ssl c) r) cs) \<le> 1)"


section \<open>firewall.py: the devices of a firewall\<close>

record device =
  device_id :: int
  entity_id :: int
  entity_type :: string

record device_spec =
  ds_id :: int
  ds_type :: string

datatype fw_event =
    DeletedDevice int string
  | DeviceDelete int
  | DeviceCreate int string
  | CreatedDevice int string

definition delete_device :: "device \<Rightarrow> fw_event list" where
  "delete_device d = [DeletedDevice (entity_id d) (entity_type d), DeviceDelete (device_id d)]"

definition create_device :: "int \<Rightarrow> string \<Rightarrow> fw_event list" where
  "create_device i t = [DeviceCreate i t, CreatedDevice i t]"

text \<open>
  The state of \<open>_update_devices\<close>: \<open>device_map\<close> (entity id to device) and the trace.
  \<open>fw_kept\<close> is not a variable of the source: it records (index of the desired device,
  remote device) each time the source keeps a remote device (\<open>del device_map[..]\<close> and
  \<open>continue\<close>).
\<close>

record fw_state =
  device_map :: "(int \<times> device) list"
  fw_trace :: "fw_event list"
  fw_kept :: "(nat \<times> device) list"

fun devices_loop :: "nat \<Rightarrow> device_spec list \<Rightarrow> fw_state \<Rightarrow> fw_state" where
  "devices_loop k [] s = s"
| "devices_loop k (device # rest) s =
     (case map_of (device_map s) (ds_id device) of
        Some d \<Rightarrow>
          if entity_type d = ds_type device
          then devices_loop (Suc k) rest
                 (s\<lparr>device_map := AList.delete (ds_id device) (device_map s),
                    fw_kept := fw_kept s @ [(k, d)]\<rparr>)
          else devices_loop (Suc k) rest
                 (s\<lparr>fw_trace := fw_trace s @ delete_device d @
                                  create_device (ds_id device) (ds_type device)\<rparr>)
      | None \<Rightarrow>
          devices_loop (Suc k) rest
            (s\<lparr>fw_trace := fw_trace s @ create_device (ds_id device) (ds_type device)\<rparr>))"

definition build_device_map :: "device list \<Rightarrow> (int \<times> device) list" where
  "build_device_map devices = fold (\<lambda>d m. AList.update (entity_id d) d m) devices []"

definition update_devices :: "device_spec list \<Rightarrow> device list \<Rightarrow> fw_state" where
  "update_devices spec_devices firewall_devices =
     (let s = devices_loop 0 spec_devices
                \<lparr>device_map = build_device_map firewall_devices, fw_trace = [], fw_kept = []\<rparr>
      in s\<lparr>fw_trace := fw_trace s @ concat (map (\<lambda>(i, d). delete_device d) (device_map s))\<rparr>)"


subsection \<open>The devices kept and the devices created\<close>

text \<open>
  \<open>fw_inv\<close>: what holds of the state of \<open>_update_devices\<close> when the loop is about to handle
  the desired device \<open>n\<close>.  \<open>unkept_creates\<close>: the create events of the desired devices for
  which no remote device was kept.
\<close>

definition fw_inv :: "device_spec list \<Rightarrow> nat \<Rightarrow> fw_state \<Rightarrow> bool" where
  "fw_inv specs n s =
     (distinct (map fst (device_map s)) \<and>
      (\<forall>(i, d)\<in>set (device_map s). entity_id d = i) \<and>
      distinct (map fst (fw_kept s)) \<and>
      distinct (map (\<lambda>kd. entity_id (snd kd)) (fw_kept s)) \<and>
      (\<forall>(k, d)\<in>set (fw_kept s).
         k < n \<and> k < length specs \<and> entity_id d \<notin> fst ` set (device_map s) \<and>
         entity_id d = ds_id (specs ! k) \<and> entity_type d = ds_type (specs ! k)))"

fun is_device_create :: "fw_event \<Rightarrow> bool" where
  "is_device_create (DeviceCreate i t) = True"
| "is_device_create (CreatedDevice i t) = True"
| "is_device_create _ = False"

definition unkept_creates :: "(nat \<times> device) list \<Rightarrow> (nat \<times> device_spec) list \<Rightarrow> fw_event list" where
  "unkept_creates kept ksp =
     concat (map (\<lambda>(k, sp). if k \<in> fst ` set kept then [] else create_device (ds_id sp) (ds_type sp)) ksp)"

text \<open>
  Read from the remote devices alone: the events of the loop for one desired device (the
  remote device of its id is kept, or deleted and the desired device created, or there is
  none and the desired device is created), the remote devices that have the id and the
  type of a desired device, the pairs of a desired device and the remote device kept for
  it, and \<open>device_map\<close> as the source builds it from devices of distinct entity ids.
\<close>

definition spec_events :: "device list \<Rightarrow> device_spec \<Rightarrow> fw_event list" where
  "spec_events devs sp =
     (case find (\<lambda>d. entity_id d = ds_id sp) devs of
        None \<Rightarrow> create_device (ds_id sp) (ds_type sp)
      | Some d \<Rightarrow>
          if entity_type d = ds_type sp then []
          else delete_device d @ create_device (ds_id sp) (ds_type sp))"

definition kept_by :: "device_spec list \<Rightarrow> device \<Rightarrow> bool" where
  "kept_by specs d = (\<exists>sp\<in>set specs. ds_id sp = entity_id d \<and> ds_type sp = entity_type d)"

definition kept_pairs :: "device list \<Rightarrow> (nat \<times> device_spec) list \<Rightarrow> (nat \<times> device) list" where
  "kept_pairs devs ksp =
     concat (map (\<lambda>(k, sp).
                    case find (\<lambda>d. entity_id d = ds_id sp \<and> entity_type d = ds_type sp) devs of
                      None \<Rightarrow> []
                    | Some d \<Rightarrow> [(k, d)]) ksp)"

definition id_map :: "device list \<Rightarrow> (int \<times> device) list" where
  "id_map ds = map (\<lambda>d. (entity_id d, d)) ds"


section \<open>The convergence poller and the timeout budget\<close>

text \<open>
  Time is a clock in whole seconds.  What a remote read returns depends on the moment it
  is made: a read is a function from the time to a result or an error.

  Modelled from the spec: \<open>poll_condition\<close> (\<open>module_utils/linode_helper.py\<close>) and the
  timeout context behind \<open>self._timeout_ctx.seconds_remaining\<close>
  (\<open>module_utils/linode_timeout.py\<close>), which are not among the sources.
  Spec 4.2: the poller "evaluates \<open>predicate()\<close> immediately; if false, sleeps
  \<open>stepInterval\<close>, re-evaluates, decrementing the caller-supplied remaining-budget clock on
  each iteration, and returns \<open>TimedOut\<close> once the budget reaches zero without the predicate
  becoming true.  Any error raised while evaluating the predicate propagates immediately
  (not retried)".  Spec 5: "a single wall-clock budget is established at the start of a
  run and decremented across every blocking call and poll".
  The poller may run forever (a step of zero seconds): not returning is \<open>None\<close>.
  \<open>Inr t\<close> is convergence at time \<open>t\<close>; the timeout is the error \<open>TimeoutError\<close>, as the
  callers of the source go on after the call without reading a result.
\<close>

partial_function (option) poll_condition ::
  "(nat \<Rightarrow> error + bool) \<Rightarrow> nat \<Rightarrow> int \<Rightarrow> nat \<Rightarrow> (error + nat) option" where
  "poll_condition condition step budget now =
     (case condition now of
        Inl e \<Rightarrow> Some (Inl e)
      | Inr ready \<Rightarrow>
          if ready then Some (Inr now)
          else if budget \<le> 0 then Some (Inl TimeoutError)
          else poll_condition condition step (budget - int step) (now + step))"

record timeout_ctx =
  start_time :: nat
  timeout_seconds :: nat

definition seconds_remaining :: "timeout_ctx \<Rightarrow> nat \<Rightarrow> int" where
  "seconds_remaining ctx now = int (timeout_seconds ctx) - (int now - int (start_time ctx))"

subsection \<open>lke\_cluster.py: \<open>_populate_kubeconfig_poll\<close> and \<open>_populate_dashboard_url_poll\<close>\<close>

text \<open>
  Both \<open>condition\<close> closures have the same body around a different read: the result is
  stored and \<open>True\<close> returned; an \<open>ApiError\<close> with status 503 gives \<open>False\<close>; any other
  \<open>ApiError\<close> is raised again, and an exception of another class is not caught at all.
\<close>

definition condition :: "(nat \<Rightarrow> error + string) \<Rightarrow> nat \<Rightarrow> error + bool" where
  "condition read now =
     (case read now of
        Inr v \<Rightarrow> Inr True
      | Inl (ApiError status) \<Rightarrow> if status \<noteq> 503 then Inl (ApiError status) else Inr False
      | Inl e \<Rightarrow> Inl e)"

record cluster_results =
  kubeconfig :: "string option"
  dashboard_url :: "string option"

definition stored :: "(nat \<Rightarrow> error + string) \<Rightarrow> nat \<Rightarrow> string option \<Rightarrow> string option" where
  "stored read t old = (case read t of Inr v \<Rightarrow> Some v | Inl e \<Rightarrow> old)"

definition populate_kubeconfig_poll ::
  "timeout_ctx \<Rightarrow> (nat \<Rightarrow> error + string) \<Rightarrow> nat \<Rightarrow> cluster_results \<Rightarrow>
   (error + nat \<times> cluster_results) option" where
  "populate_kubeconfig_poll ctx read_kubeconfig now results =
     (case poll_condition (condition read_kubeconfig) 4 (seconds_remaining ctx now) now of
        None \<Rightarrow> None
      | Some (Inl e) \<Rightarrow> Some (Inl e)
      | Some (Inr t) \<Rightarrow>
          Some (Inr (t, results\<lparr>kubeconfig := stored read_kubeconfig t (kubeconfig results)\<rparr>)))"

definition populate_dashboard_url_poll ::
  "timeout_ctx \<Rightarrow> (nat \<Rightarrow> error + string) \<Rightarrow> nat \<Rightarrow> cluster_results \<Rightarrow>
   (error + nat \<times> cluster_results) option" where
  "populate_dashboard_url_poll ctx read_dashboard now results =
     (case poll_condition (condition read_dashboard) 1 (seconds_remaining ctx now) now of
        None \<Rightarrow> None
      | Some (Inl e) \<Rightarrow> Some (Inl e)
      | Some (Inr t) \<Rightarrow>
          Some (Inr (t, results\<lparr>dashboard_url := stored read_dashboard t (dashboard_url results)\<rparr>)))"

text \<open>The end of \<open>_populate_results\<close> when polling is not skipped: one poll after the other.\<close>

definition populate_polls ::
  "timeout_ctx \<Rightarrow> (nat \<Rightarrow> error + string) \<Rightarrow> (nat \<Rightarrow> error + string) \<Rightarrow> nat \<Rightarrow>
   cluster_results \<Rightarrow> (error + nat \<times> cluster_results) option" where
  "populate_polls ctx read_kubeconfig read_dashboard now results =
     (case populate_kubeconfig_poll ctx read_kubeconfig now results of
        None \<Rightarrow> None
      | Some (Inl e) \<Rightarrow> Some (Inl e)
      | Some (Inr (t, results1)) \<Rightarrow> populate_dashboard_url_poll ctx read_dashboard t results1)"

subsection \<open>database\_mysql\_v2.py: \<open>_create\<close>\<close>

text \<open>
  Modelled from the spec: \<open>wait_for_next_event_finished\<close> (the event poller of the API
  library) and \<open>wait_for_database_status\<close> (\<open>module_utils\<close>) are not among the sources;
  each is taken to be the poller of spec 4.2 with a predicate and a step of its own.

  The model starts at line 399, with \<open>params\<close> the dictionary built by lines 378 to 397.
  The environment gives the two predicates (the create event has finished, the status of
  the database is \<open>active\<close>), the steps of the two helpers, and the seconds that the calls
  \<open>mysql_create\<close> and \<open>save\<close> take.  Each of the waits is passed
  \<open>self._timeout_ctx.seconds_remaining\<close>, read when the wait starts.
  \<open>params.get("updates")\<close> is \<open>None\<close> for a missing key and for the value \<open>None\<close>.
\<close>

datatype db_event = MysqlCreate "jval dict" | DatabaseSave jval

record db_env =
  event_finished :: "nat \<Rightarrow> error + bool"
  status_active :: "nat \<Rightarrow> error + bool"
  step_event :: nat
  step_status :: nat
  create_seconds :: nat
  save_seconds :: nat

definition db_create ::
  "timeout_ctx \<Rightarrow> db_env \<Rightarrow> jval dict \<Rightarrow> nat \<Rightarrow> (error + nat \<times> db_event list) option" where
  "db_create ctx env params now =
     (let t0 = now + create_seconds env in
      case poll_condition (event_finished env) (step_event env) (seconds_remaining ctx t0) t0 of
        None \<Rightarrow> None
      | Some (Inl e) \<Rightarrow> Some (Inl e)
      | Some (Inr t1) \<Rightarrow>
          (case poll_condition (status_active env) (step_status env) (seconds_remaining ctx t1) t1 of
             None \<Rightarrow> None
           | Some (Inl e) \<Rightarrow> Some (Inl e)
           | Some (Inr t2) \<Rightarrow>
               (case map_of params ''updates'' of
                  None \<Rightarrow> Some (Inr (t2, [MysqlCreate params]))
                | Some JNull \<Rightarrow> Some (Inr (t2, [MysqlCreate params]))
                | Some updates \<Rightarrow>
                    (let t3 = t2 + save_seconds env in
                     case poll_condition (status_active env) (step_status env)
                            (seconds_remaining ctx t3) t3 of
                       None \<Rightarrow> None
                     | Some (Inl e) \<Rightarrow> Some (Inl e)
                     | Some (Inr t4) \<Rightarrow>
                         Some (Inr (t4, [MysqlCreate params, DatabaseSave updates]))))))"

subsection \<open>The deadline of a run\<close>

text \<open>
  \<open>deadline\<close>: the start of the run plus its budget.  \<open>needs cond t0 step k\<close>: a poll of
  \<open>cond\<close> started at \<open>t0\<close> finds it false at its first \<open>k\<close> evaluations and true at the next.
  \<open>in_budget ctx t0 step k\<close>: such a poll is satisfied at once, or its last evaluation
  that found the predicate false was made before the deadline.
\<close>

definition deadline :: "timeout_ctx \<Rightarrow> int" where
  "deadline ctx = int (start_time ctx) + int (timeout_seconds ctx)"

definition needs :: "(nat \<Rightarrow> error + bool) \<Rightarrow> nat \<Rightarrow> nat \<Rightarrow> nat \<Rightarrow> bool" where
  "needs cond t0 step k =
     (list_all (\<lambda>j. cond (t0 + j * step) = Inr False) [0..<k] \<and> cond (t0 + k * step) = Inr True)"

definition in_budget :: "timeout_ctx \<Rightarrow> nat \<Rightarrow> nat \<Rightarrow> nat \<Rightarrow> bool" where
  "in_budget ctx t0 step k = (k = 0 \<or> int t0 + (int k - 1) * int step < deadline ctx)"


section \<open>Flat fields: \<open>handle_updates\<close>, \<open>_update_pool\<close>, \<open>_change_rules\<close>\<close>

text \<open>
  Modelled from the spec: \<open>handle_updates\<close> of \<open>module_utils/linode_helper.py\<close>, which is
  not among the sources.  Spec 4.4: "For each key in \<open>desiredFields\<close> that is present in
  \<open>mutableFieldSet\<close> and whose value differs (by deep structural equality) from the
  corresponding field on \<open>remoteEntity\<close>, stage the field for a single combined update
  call, then record one Action Ledger entry per changed field [...] and, if any field
  changed, issue exactly one write to the remote entity combining all staged fields [...]
  and re-fetch to confirm. [...] Keys present but equal to the remote value are no-ops."
  Spec 3: a changed field that is not mutable makes the call "fail with a reported error".
  A key with no field of that name on the remote entity has nothing to differ from.
\<close>

datatype 'v field_event =
    FieldAction string
  | FieldWrite "(string \<times> 'v) list"
  | FieldRefetch

definition changed_fields :: "'v dict \<Rightarrow> 'v dict \<Rightarrow> 'v dict" where
  "changed_fields remote desired =
     filter (\<lambda>(k, v). case map_of remote k of None \<Rightarrow> False | Some old \<Rightarrow> old \<noteq> v) desired"

definition handle_updates ::
  "'v dict \<Rightarrow> 'v dict \<Rightarrow> string set \<Rightarrow> 'v field_event list \<times> error option" where
  "handle_updates remote desired mutable_fields =
     (let changed = changed_fields remote desired in
      if list_ex (\<lambda>(k, v). k \<notin> mutable_fields) changed
      then ([], Some (OtherError ''non-updatable field''))
      else if changed = [] then ([], None)
      else (map (\<lambda>(k, v). FieldAction k) changed @ [FieldWrite changed, FieldRefetch], None))"

subsection \<open>lke\_node\_pool.py: \<open>_update_pool\<close>\<close>

text \<open>
  The pool object: the six attributes \<open>_update_pool\<close> compares itself, and the other
  properties as \<open>handle_updates\<close> reads them.  The parameters after \<open>filter_null_values\<close>:
  \<open>None\<close> is a key that is not there, so \<open>params.pop("count")\<close> raises \<open>KeyError\<close> when no
  count was given; \<open>np_rest\<close> is what is left after the pops.
\<close>

record 'v node_pool =
  np_count :: int
  np_autoscaler :: 'v
  np_taints :: 'v
  np_labels :: 'v
  np_k8s_version :: 'v
  np_update_strategy :: 'v
  np_fields :: "'v dict"

record 'v np_params =
  new_count :: "int option"
  new_autoscaler :: "'v option"
  new_taints :: "'v option"
  new_labels :: "'v option"
  new_k8s_version :: "'v option"
  new_update_strategy :: "'v option"
  np_rest :: "'v dict"

datatype 'v np_event =
    NpField "'v field_event"
  | NpResized int int
  | NpUpdated string
  | NpSave "'v node_pool"
  | NpGet

text \<open>
  One \<open>if\<close> of the source: when the test holds, the ledger entry is recorded, the
  attribute is set on the object and \<open>should_update\<close> is raised.
\<close>

type_synonym 'v np_state = "'v node_pool \<times> 'v np_event list \<times> bool"

definition np_stage ::
  "('v node_pool \<Rightarrow> bool) \<Rightarrow> ('v node_pool \<Rightarrow> 'v np_event) \<Rightarrow> ('v node_pool \<Rightarrow> 'v node_pool) \<Rightarrow>
   'v np_state \<Rightarrow> 'v np_state" where
  "np_stage differs entry assign st =
     (case st of (pool, tr, should_update) \<Rightarrow>
        if differs pool then (assign pool, tr @ [entry pool], True) else st)"

definition np_stage_opt ::
  "'v option \<Rightarrow> ('v node_pool \<Rightarrow> 'v) \<Rightarrow> string \<Rightarrow> ('v \<Rightarrow> 'v node_pool \<Rightarrow> 'v node_pool) \<Rightarrow>
   'v np_state \<Rightarrow> 'v np_state" where
  "np_stage_opt new_value attr msg assign st =
     (case new_value of
        None \<Rightarrow> st
      | Some v \<Rightarrow> np_stage (\<lambda>pool. attr pool \<noteq> v) (\<lambda>pool. NpUpdated msg) (assign v) st)"

definition update_pool ::
  "'v np_params \<Rightarrow> error option \<Rightarrow> 'v node_pool \<Rightarrow> 'v np_event list \<times> error option" where
  "update_pool params save_result pool =
     (case new_count params of
        None \<Rightarrow> ([], Some (KeyError ''count''))
      | Some new_count_value \<Rightarrow>
          (case handle_updates (np_fields pool) (np_rest params) {} of
             (ev, Some e) \<Rightarrow>
               (map NpField ev, Some (ModuleFail ''failed to update lke cluster node pool''))
           | (ev, None) \<Rightarrow>
               (case
                  np_stage_opt (new_update_strategy params) np_update_strategy
                    ''Updated update strategy for Node Pool'' (\<lambda>v p. p\<lparr>np_update_strategy := v\<rparr>)
                  (np_stage_opt (new_k8s_version params) np_k8s_version
                    ''Updated k8s version for Node Pool'' (\<lambda>v p. p\<lparr>np_k8s_version := v\<rparr>)
                  (np_stage_opt (new_labels params) np_labels
                    ''Updated labels for Node Pool'' (\<lambda>v p. p\<lparr>np_labels := v\<rparr>)
                  (np_stage_opt (new_taints params) np_taints
                    ''Updated taints for Node Pool'' (\<lambda>v p. p\<lparr>np_taints := v\<rparr>)
                  (np_stage_opt (new_autoscaler params) np_autoscaler
                    ''Updated autoscaler for Node Pool'' (\<lambda>v p. p\<lparr>np_autoscaler := v\<rparr>)
                  (np_stage (\<lambda>p. np_count p \<noteq> new_count_value) (\<lambda>p. NpResized (np_count p) new_count_value)
                    (\<lambda>p. p\<lparr>np_count := new_count_value\<rparr>)
                    (pool, map NpField ev, False))))))
                of (pool1, tr, should_update) \<Rightarrow>
                  if should_update
                  then (case save_result of
                          Some e \<Rightarrow> (tr @ [NpSave pool1], Some (ModuleFail ''failed to update node pool''))
                        | None \<Rightarrow> (tr @ [NpSave pool1, NpGet], None))
                  else (tr @ [NpGet], None))))"

fun is_np_write :: "'v np_event \<Rightarrow> bool" where
  "is_np_write (NpSave p) = True"
| "is_np_write (NpField (FieldWrite fs)) = True"
| "is_np_write _ = False"

fun is_np_entry :: "'v np_event \<Rightarrow> bool" where
  "is_np_entry (NpResized a b) = True"
| "is_np_entry (NpUpdated m) = True"
| "is_np_entry (NpField (FieldAction k)) = True"
| "is_np_entry _ = False"

subsection \<open>firewall.py: \<open>_change_rules\<close> and the rules step of \<open>_update_firewall\<close>\<close>

text \<open>
  The rules document after \<open>filter_null_values_recursive\<close>: two lists of rules and two
  policies, \<open>None\<close> for a key that is not there.  A rule is a value of an open type \<open>'r\<close>.
  Three functions the model takes as parameters: \<open>normalize_ips\<close> (what \<open>_normalize_ips\<close>
  does to one rule with Python's \<open>ipaddress\<close>), \<open>label_of\<close> (\<open>rule["label"]\<close>) and
  \<open>amend_rules\<close> (\<open>_amend_rules\<close>, used in state \<open>update\<close> only).
\<close>

record 'r rules =
  inbound :: "'r list option"
  outbound :: "'r list option"
  inbound_policy :: "string option"
  outbound_policy :: "string option"

definition normalized :: "('r \<Rightarrow> 'r) \<Rightarrow> 'r list option \<Rightarrow> 'r list" where
  "normalized normalize_ips rs = (case rs of None \<Rightarrow> [] | Some l \<Rightarrow> map normalize_ips l)"

text \<open>\<open>_update_rules\<close> for one direction: the remote list and the local list it leaves.\<close>

definition update_rules_direction ::
  "('r \<Rightarrow> string) \<Rightarrow> ('r list \<Rightarrow> 'r list \<Rightarrow> 'r list) \<Rightarrow> bool \<Rightarrow> 'r list \<Rightarrow> 'r list \<Rightarrow>
   'r list \<times> 'r list" where
  "update_rules_direction label_of amend_rules is_update remote local =
     (if \<not> is_update then (remote, local)
      else (let remote1 = remote @ filter (\<lambda>l. label_of l \<notin> set (map label_of remote)) local
            in (remote1, amend_rules remote1 local)))"

definition sync_policy :: "string \<Rightarrow> string option \<Rightarrow> string option \<Rightarrow> error + string option" where
  "sync_policy name local remote =
     (case local of
        Some p \<Rightarrow> Inr (Some p)
      | None \<Rightarrow> (case remote of None \<Rightarrow> Inl (KeyError name) | Some p \<Rightarrow> Inr (Some p)))"

definition change_rules ::
  "('r \<Rightarrow> 'r) \<Rightarrow> ('r \<Rightarrow> string) \<Rightarrow> ('r list \<Rightarrow> 'r list \<Rightarrow> 'r list) \<Rightarrow> bool \<Rightarrow>
   'r rules \<Rightarrow> 'r rules \<Rightarrow> error + 'r rules option" where
  "change_rules normalize_ips label_of amend_rules is_update local_rules remote_rules =
     (case update_rules_direction label_of amend_rules is_update
             (normalized normalize_ips (inbound remote_rules))
             (normalized normalize_ips (inbound local_rules)) of
        (remote_in, local_in) \<Rightarrow>
     (case update_rules_direction label_of amend_rules is_update
             (normalized normalize_ips (outbound remote_rules))
             (normalized normalize_ips (outbound local_rules)) of
        (remote_out, local_out) \<Rightarrow>
     (case sync_policy ''inbound_policy'' (inbound_policy local_rules) (inbound_policy remote_rules) of
        Inl e \<Rightarrow> Inl e
      | Inr policy_in \<Rightarrow>
     (case sync_policy ''outbound_policy'' (outbound_policy local_rules) (outbound_policy remote_rules) of
        Inl e \<Rightarrow> Inl e
      | Inr policy_out \<Rightarrow>
          (let local1 = \<lparr>inbound = Some local_in, outbound = Some local_out,
                         inbound_policy = policy_in, outbound_policy = policy_out\<rparr>;
               remote1 = \<lparr>inbound = Some remote_in, outbound = Some remote_out,
                          inbound_policy = inbound_policy remote_rules,
                          outbound_policy = outbound_policy remote_rules\<rparr>
           in Inr (if local1 \<noteq> remote1 then Some local1 else None))))))"

datatype 'r fw_rules_event = UpdateRules "'r rules" | UpdatedFirewallRules

text \<open>
  \<open>changes = self._change_rules()\<close>, then \<open>if changes:\<close> the write and the ledger entry.
  A document \<open>_change_rules\<close> returns always has the keys \<open>inbound\<close> and \<open>outbound\<close>, so it
  is true as a Python value.
\<close>

definition rules_step ::
  "('r \<Rightarrow> 'r) \<Rightarrow> ('r \<Rightarrow> string) \<Rightarrow> ('r list \<Rightarrow> 'r list \<Rightarrow> 'r list) \<Rightarrow> bool \<Rightarrow>
   'r rules \<Rightarrow> 'r rules \<Rightarrow> 'r fw_rules_event list \<times> error option" where
  "rules_step normalize_ips label_of amend_rules is_update local_rules remote_rules =
     (case change_rules normalize_ips label_of amend_rules is_update local_rules remote_rules of
        Inl e \<Rightarrow> ([], Some e)
      | Inr None \<Rightarrow> ([], None)
      | Inr (Some changes) \<Rightarrow> ([UpdateRules changes, UpdatedFirewallRules], None))"


section \<open>The order of application\<close>











section \<open>Theorems: user.py\<close>

lemma find_snoc: "find P (xs @ [x]) = (case find P xs of Some y \<Rightarrow> Some y | None \<Rightarrow> if P x then Some x else None)"
  by (induction xs) auto

lemma gm_lookup_step:
  "gm_lookup (AList.update key (AList.update j g
       (case map_of (if map_of m key = None then AList.update key [] m else m) key of
          None \<Rightarrow> [] | Some d \<Rightarrow> d))
       (if map_of m key = None then AList.update key [] m else m)) key' i =
   (if key' = key \<and> i = j then Some g else gm_lookup m key' i)"
  by (auto simp: gm_lookup_def update_conv' split: option.splits)

lemma gm_lookup_index:
  "gm_lookup (index_grants key gs m) key' i =
     (if key' = key then
        (case find (\<lambda>d. grant_id d = i) (rev gs) of Some d \<Rightarrow> Some d | None \<Rightarrow> gm_lookup m key i)
      else gm_lookup m key' i)"
proof (induction gs arbitrary: m)
  case Nil
  then show ?case by simp
next
  case (Cons g gs)
  define m1 where "m1 = (if map_of m key = None then AList.update key [] m else m)"
  define m2 where "m2 = AList.update key (AList.update (grant_id g) g
       (case map_of m1 key of None \<Rightarrow> [] | Some d \<Rightarrow> d)) m1"
  have step: "index_grants key (g # gs) m = index_grants key gs m2"
    by (simp add: m1_def m2_def Let_def)
  have look: "gm_lookup m2 k j = (if k = key \<and> j = grant_id g then Some g else gm_lookup m k j)" for k j
    unfolding m2_def m1_def by (rule gm_lookup_step)
  show ?case
    unfolding step Cons.IH look
    by (cases "find (\<lambda>d. grant_id d = i) (rev gs)") (auto simp: find_snoc)
qed

lemma gm_lookup_build:
  "distinct (map fst param) \<Longrightarrow>
   gm_lookup (build_grant_map param m) key i =
     (case map_of param key of
        Some (GList ds) \<Rightarrow>
          (case find (\<lambda>d. grant_id d = i) (rev ds) of Some d \<Rightarrow> Some d | None \<Rightarrow> gm_lookup m key i)
      | _ \<Rightarrow> gm_lookup m key i)"
proof (induction param arbitrary: m)
  case Nil
  then show ?case by simp
next
  case (Cons kv param)
  obtain k v where kv: "kv = (k, v)" by (cases kv)
  from Cons.prems kv have d: "distinct (map fst param)" and nk: "map_of param k = None"
    by (auto simp: map_of_eq_None_iff)
  show ?case
    using nk by (cases v) (auto simp: kv Cons.IH[OF d] gm_lookup_index split: option.splits gval.splits)
qed

lemma merge_resource_eq: "merge_resource m key gs acc = acc @ map (merge_one m key) gs"
  by (induction gs arbitrary: acc) auto


lemma merge_one_lookup:
  "merge_one m key g = (case gm_lookup m key (grant_id g) of None \<Rightarrow> revoked g | Some n \<Rightarrow> n)"
  by (simp add: merge_one_def gm_lookup_def split: option.splits)

lemma gm_lookup_empty: "gm_lookup [] key i = None"
  by (simp add: gm_lookup_def)

lemma merge_one_build:
  assumes d: "distinct (map fst param)"
  shows "merge_one (build_grant_map param []) key g =
     (case find (\<lambda>d. grant_id d = grant_id g) (rev (desired_grants param key)) of
        Some d \<Rightarrow> d | None \<Rightarrow> revoked g)"
proof -
  have "gm_lookup (build_grant_map param []) key (grant_id g) =
        find (\<lambda>d. grant_id d = grant_id g) (rev (desired_grants param key))"
    unfolding gm_lookup_build[OF d] gm_lookup_empty desired_grants_def
    by (simp split: option.splits gval.splits)
  then show ?thesis
    unfolding merge_one_lookup by (simp split: option.splits)
qed

lemma merge_loop_result:
  "distinct (map fst old) \<Longrightarrow>
   \<forall>key gs. (key, GList gs) \<in> set old \<longrightarrow> list_or_absent result key \<Longrightarrow>
   \<exists>res. merge_loop m old result = Inr res \<and> merged_doc m old result res"
proof (induction old arbitrary: result)
  case Nil
  then show ?case by (simp add: merged_doc_def)
next
  case (Cons kv old)
  obtain k v where kv: "kv = (k, v)" by (cases kv)
  from Cons.prems(1) kv have d: "distinct (map fst old)" and nk: "map_of old k = None"
    by (auto simp: map_of_eq_None_iff)
  show ?case
  proof (cases "\<exists>gs. v = GList gs")
    case False
    have step: "merge_loop m (kv # old) result = merge_loop m old result"
      using False by (cases v) (auto simp: kv)
    have pre: "\<forall>key gs. (key, GList gs) \<in> set old \<longrightarrow> list_or_absent result key"
      using Cons.prems(2) by auto
    from Cons.IH[OF d pre] obtain res where
      r: "merge_loop m old result = Inr res" and l: "merged_doc m old result res" by blast
    have "merged_doc m (kv # old) result res"
      using l nk False unfolding merged_doc_def
      by (cases v) (auto simp: kv)
    then show ?thesis unfolding step using r by blast
  next
    case True
    then obtain gs where v: "v = GList gs" by blast
    define result1 where "result1 = (if map_of result k = None then AList.update k (GList []) result else result)"
    define result2 where "result2 = AList.update k (GList (merge_resource m k gs (acc_of result k))) result1"
    have loa: "list_or_absent result k" using Cons.prems(2) by (simp add: kv v)
    have r1: "map_of result1 k = Some (GList (acc_of result k))"
      using loa by (auto simp: result1_def list_or_absent_def acc_of_def update_conv' split: option.splits gval.splits)
    have step: "merge_loop m (kv # old) result = merge_loop m old result2"
      using r1 by (simp add: kv v Let_def result1_def[symmetric] result2_def)
    have m2: "map_of result2 key = (if key = k then Some (GList (acc_of result k @ map (merge_one m k) gs)) else map_of result key)" for key
      by (auto simp: result2_def result1_def update_conv' merge_resource_eq)
    have pre: "\<forall>key gs. (key, GList gs) \<in> set old \<longrightarrow> list_or_absent result2 key"
    proof (intro allI impI)
      fix key gs' assume a: "(key, GList gs') \<in> set old"
      then have "key \<noteq> k" using nk by (force simp: map_of_eq_None_iff)
      moreover have "list_or_absent result key" using Cons.prems(2) a by auto
      ultimately show "list_or_absent result2 key" by (simp add: list_or_absent_def m2)
    qed
    from Cons.IH[OF d pre] obtain res where
      r: "merge_loop m old result2 = Inr res" and l: "merged_doc m old result2 res" by blast
    have a2: "key \<noteq> k \<Longrightarrow> acc_of result2 key = acc_of result key" for key
      by (simp add: acc_of_def m2)
    have "merged_doc m (kv # old) result res"
      unfolding merged_doc_def
    proof
      fix key
      show "map_of res key =
        (case map_of (kv # old) key of
           Some (GList rs) \<Rightarrow> Some (GList (acc_of result key @ map (merge_one m key) rs))
         | _ \<Rightarrow> map_of result key)"
      proof (cases "key = k")
        case True
        then show ?thesis using l nk by (simp add: merged_doc_def kv v m2)
      next
        case False
        then show ?thesis using l
          by (simp add: merged_doc_def kv m2 a2 split: option.splits gval.splits)
      qed
    qed
    then show ?thesis unfolding step using r by blast
  qed
qed


lemma find_rev_mentioned:
  "find (\<lambda>d. grant_id d = i) (rev ds) = None \<longleftrightarrow> i \<notin> grant_id ` set ds"
  by (auto simp: find_None_iff)

text \<open>
  Claim C3.  \<open>_merge_grants\<close> returns a full document: for every category \<open>key\<close> of the
  remote document it holds one grant for each remote grant, with the same ids in the same
  order, and
  (a) a grant whose id the desired input mentions for that category is the desired grant
  itself (the last one the input lists for the id), so it carries the desired permission;
  (b) a grant whose id the desired input does not mention for that category has its
  permissions set to \<open>None\<close>, whatever the remote value was.
  The hypotheses say that both documents are dictionaries, that the parameters hold the
  key \<open>"global"\<close> (as \<open>_normalize_grants_params\<close> writes it) and that the remote
  \<open>"global"\<close> is not a list.
\<close>

theorem merge_grants_revoke_by_omission:
  assumes old_dict: "distinct (map fst old_grants)"
    and param_dict: "distinct (map fst param_grants)"
    and param_global: "map_of param_grants ''global'' = Some g"
    and old_global: "\<forall>gs. map_of old_grants ''global'' \<noteq> Some (GList gs)"
    and category: "map_of old_grants key = Some (GList rs)"
  shows "\<exists>result res.
           merge_grants old_grants param_grants = Inr result \<and>
           map_of result key = Some (GList res) \<and>
           map grant_id res = map grant_id rs \<and>
           (\<forall>r\<in>set res. \<forall>d.
              find (\<lambda>d. grant_id d = grant_id r) (rev (desired_grants param_grants key)) = Some d
              \<longrightarrow> r = d) \<and>
           (\<forall>r\<in>set res.
              grant_id r \<notin> grant_id ` set (desired_grants param_grants key)
              \<longrightarrow> permissions r = None)"
proof -
  define m where "m = build_grant_map param_grants []"
  define result0 where "result0 = [(''global'', if truthy g then g else GDict [])]"
  have key_ng: "key \<noteq> ''global''" using old_global category by auto
  have pre: "\<forall>k gs. (k, GList gs) \<in> set old_grants \<longrightarrow> list_or_absent result0 k"
  proof (intro allI impI)
    fix k gs assume "(k, GList gs) \<in> set old_grants"
    then have "map_of old_grants k = Some (GList gs)" using old_dict by simp
    then have "k \<noteq> ''global''" using old_global by auto
    then show "list_or_absent result0 k" by (simp add: list_or_absent_def result0_def)
  qed
  from merge_loop_result[OF old_dict pre, of m] obtain result where
    r: "merge_loop m old_grants result0 = Inr result" and md: "merged_doc m old_grants result0 result"
    by blast
  define res where "res = map (merge_one m key) rs"
  have mg: "merge_grants old_grants param_grants = Inr result"
    using r by (simp add: merge_grants_def param_global m_def result0_def)
  have lk: "map_of result key = Some (GList res)"
    using md key_ng by (simp add: merged_doc_def category acc_of_def result0_def res_def)
  have one: "merge_one m key x =
     (case find (\<lambda>d. grant_id d = grant_id x) (rev (desired_grants param_grants key)) of
        Some d \<Rightarrow> d | None \<Rightarrow> revoked x)" for x
    unfolding m_def by (rule merge_one_build[OF param_dict])
  have found_id: "find (\<lambda>d. grant_id d = i) ds = Some d \<Longrightarrow> grant_id d = i" for i d and ds :: "grant list"
    by (auto simp: find_Some_iff)
  have ids: "grant_id (merge_one m key x) = grant_id x" for x
    unfolding one by (auto simp: revoked_def dest: found_id split: option.splits)
  have a: "\<forall>r\<in>set res. \<forall>d.
              find (\<lambda>d. grant_id d = grant_id r) (rev (desired_grants param_grants key)) = Some d
              \<longrightarrow> r = d"
    unfolding res_def using ids by (auto simp: one split: option.splits)
  have b: "\<forall>r\<in>set res.
              grant_id r \<notin> grant_id ` set (desired_grants param_grants key)
              \<longrightarrow> permissions r = None"
  proof
    fix r assume "r \<in> set res"
    then obtain x where x: "r = merge_one m key x" by (auto simp: res_def)
    show "grant_id r \<notin> grant_id ` set (desired_grants param_grants key) \<longrightarrow> permissions r = None"
    proof
      assume "grant_id r \<notin> grant_id ` set (desired_grants param_grants key)"
      then have "find (\<lambda>d. grant_id d = grant_id x) (rev (desired_grants param_grants key)) = None"
        unfolding find_rev_mentioned x ids .
      then show "permissions r = None" by (simp add: x one revoked_def)
    qed
  qed
  have "map grant_id res = map grant_id rs" by (simp add: res_def ids)
  with mg lk a b show ?thesis by blast
qed

text \<open>
  The example of the claim: remote \<open>{A: read_write, B: read_only}\<close>, desired
  \<open>{A: read_write}\<close>; the merge yields \<open>{A: read_write, B: None}\<close>.
\<close>

theorem merge_grants_revoke_by_omission_witness:
  "distinct (map fst
     [(''global'', GDict [(''add_linodes'', JBool False)]),
      (''linode'', GList [\<lparr>grant_id = 1, grant_label = Some ''A'', permissions = Some ''read_write''\<rparr>,
                          \<lparr>grant_id = 2, grant_label = Some ''B'', permissions = Some ''read_only''\<rparr>])]) \<and>
   distinct (map fst
     [(''global'', GNull),
      (''linode'', GList [\<lparr>grant_id = 1, grant_label = None, permissions = Some ''read_write''\<rparr>])]) \<and>
   merge_grants
     [(''global'', GDict [(''add_linodes'', JBool False)]),
      (''linode'', GList [\<lparr>grant_id = 1, grant_label = Some ''A'', permissions = Some ''read_write''\<rparr>,
                          \<lparr>grant_id = 2, grant_label = Some ''B'', permissions = Some ''read_only''\<rparr>])]
     [(''global'', GNull),
      (''linode'', GList [\<lparr>grant_id = 1, grant_label = None, permissions = Some ''read_write''\<rparr>])]
   = Inr [(''global'', GDict []),
          (''linode'', GList [\<lparr>grant_id = 1, grant_label = None, permissions = Some ''read_write''\<rparr>,
                              \<lparr>grant_id = 2, grant_label = None, permissions = None\<rparr>])]"
  using merge_grants_revoke_by_omission
    [of "[(''global'', GDict [(''add_linodes'', JBool False)]),
      (''linode'', GList [\<lparr>grant_id = 1, grant_label = Some ''A'', permissions = Some ''read_write''\<rparr>,
                          \<lparr>grant_id = 2, grant_label = Some ''B'', permissions = Some ''read_only''\<rparr>])]"
        "[(''global'', GNull),
      (''linode'', GList [\<lparr>grant_id = 1, grant_label = None, permissions = Some ''read_write''\<rparr>])]"
        GNull "''linode''"
        "[\<lparr>grant_id = 1, grant_label = Some ''A'', permissions = Some ''read_write''\<rparr>,
          \<lparr>grant_id = 2, grant_label = Some ''B'', permissions = Some ''read_only''\<rparr>]"]
  by (simp add: merge_grants_def merge_one_def revoked_def)

text \<open>
  Claim C10.  With \<open>restricted\<close> false (or \<open>None\<close>), or with no \<open>grants\<close> parameter,
  \<open>_update_grants\<close> returns at its first test: the trace is empty (no GET, no PUT on the
  grants endpoint, no entry of the action ledger) and no error is raised, whatever grants
  the parameters list and whatever the remote document is.
\<close>

theorem update_grants_skipped:
  "p_restricted params = Given False \<or> p_restricted params = Null \<or>
   p_grants params = Absent \<or> p_grants params = Null \<Longrightarrow>
   update_grants params raw = ([], None)"
  by (auto simp: update_grants_def split: param.splits bool.splits)

theorem update_grants_skipped_witness:
  "update_grants
     \<lparr>p_grants = Given \<lparr>gp_global = Null,
                         gp_resources = Given [\<lparr>rg_type = ''linode'', rg_id = 1,
                                                 rg_permissions = Some ''read_write''\<rparr>]\<rparr>,
      p_restricted = Given False\<rparr>
     (Inr [(''global'', GDict []),
           (''linode'', GList [\<lparr>grant_id = 1, grant_label = Some ''A'', permissions = None\<rparr>])])
   = ([], None)"
  using update_grants_skipped
    [of "\<lparr>p_grants = Given \<lparr>gp_global = Null,
                         gp_resources = Given [\<lparr>rg_type = ''linode'', rg_id = 1,
                                                 rg_permissions = Some ''read_write''\<rparr>]\<rparr>,
      p_restricted = Given False\<rparr>"]
  by simp

text \<open>The same parameters with \<open>restricted\<close> true do write: the test is what decides.\<close>

lemma update_grants_restricted_example:
  "update_grants
     \<lparr>p_grants = Given \<lparr>gp_global = Null,
                         gp_resources = Given [\<lparr>rg_type = ''Linode'', rg_id = 1,
                                                 rg_permissions = Some ''read_write''\<rparr>]\<rparr>,
      p_restricted = Given True\<rparr>
     (Inr [(''global'', GDict []),
           (''linode'', GList [\<lparr>grant_id = 1, grant_label = Some ''A'', permissions = None\<rparr>])])
   = ([GetGrants,
       PutGrants [(''global'', GDict []),
                  (''linode'', GList [\<lparr>grant_id = 1, grant_label = None,
                                          permissions = Some ''read_write''\<rparr>])],
       UserAction ''Updated grants''], None)"
  by (simp add: update_grants_def normalize_grants_params_def str_lower_def lower_char_def
        compare_grants_def dict_eq_by_def merge_grants_def merge_one_def)

section \<open>Theorems: lke\_cluster.py\<close>

text \<open>
  Claim C4 at the first loop of \<open>_update_cluster\<close> (lines 806 to 843).  A remote pool of
  the desired count and type whose autoscaler and taints both differ from the desired
  ones is written twice, once after each field: the first \<open>save()\<close> carries the new
  autoscaler with the old taints, the second carries both.
\<close>

theorem update_cluster_saves_once_per_field:
  "filter is_save (ps_trace (update_pools
     [\<lparr>spec_type = ''g6-standard-2'', spec_count = 3, spec_autoscaler = Some (1::nat),
       spec_taints = Some 1, spec_labels = None\<rparr>]
     [\<lparr>pool_id = 7, pool_type = ''g6-standard-2'', pool_count = 3, pool_autoscaler = 0,
       pool_taints = 0, pool_labels = 0\<rparr>]))
   = [PoolSave \<lparr>pool_id = 7, pool_type = ''g6-standard-2'', pool_count = 3,
                pool_autoscaler = 1, pool_taints = 0, pool_labels = 0\<rparr>,
      PoolSave \<lparr>pool_id = 7, pool_type = ''g6-standard-2'', pool_count = 3,
                pool_autoscaler = 1, pool_taints = 1, pool_labels = 0\<rparr>]"
  by code_simp

subsection \<open>The loops, one pool at a time\<close>

lemma save_autoscaler_eq:
  "i < length (existing_pools s) \<Longrightarrow>
   save_autoscaler p i s =
     s\<lparr>existing_pools := (existing_pools s)[i := fst (exact_autoscaler p (existing_pools s ! i))],
       ps_trace := ps_trace s @ snd (exact_autoscaler p (existing_pools s ! i))\<rparr>"
  by (simp add: save_autoscaler_def exact_autoscaler_def Let_def split: option.splits)

lemma save_taints_eq:
  "i < length (existing_pools s) \<Longrightarrow>
   save_taints p i s =
     s\<lparr>existing_pools := (existing_pools s)[i := fst (exact_taints p (existing_pools s ! i))],
       ps_trace := ps_trace s @ snd (exact_taints p (existing_pools s ! i))\<rparr>"
  by (simp add: save_taints_def exact_taints_def Let_def split: option.splits)

lemma save_labels_eq:
  "i < length (existing_pools s) \<Longrightarrow>
   save_labels p i s =
     s\<lparr>existing_pools := (existing_pools s)[i := fst (exact_labels p (existing_pools s ! i))],
       ps_trace := ps_trace s @ snd (exact_labels p (existing_pools s ! i))\<rparr>"
  by (simp add: save_labels_def exact_labels_def Let_def split: option.splits)

lemma saves_eq:
  assumes i: "i < length (existing_pools s)"
  shows "save_labels p i (save_taints p i (save_autoscaler p i s)) =
     s\<lparr>existing_pools := (existing_pools s)[i := fst (exact_update p (existing_pools s ! i))],
       ps_trace := ps_trace s @ snd (exact_update p (existing_pools s ! i))\<rparr>"
proof -
  define s1 where "s1 = save_autoscaler p i s"
  define s2 where "s2 = save_taints p i s1"
  have e1: "s1 = s\<lparr>existing_pools := (existing_pools s)[i := fst (exact_autoscaler p (existing_pools s ! i))],
       ps_trace := ps_trace s @ snd (exact_autoscaler p (existing_pools s ! i))\<rparr>"
    unfolding s1_def by (rule save_autoscaler_eq[OF i])
  have i1: "i < length (existing_pools s1)" using i by (simp add: e1)
  have e2: "s2 = s1\<lparr>existing_pools := (existing_pools s1)[i := fst (exact_taints p (existing_pools s1 ! i))],
       ps_trace := ps_trace s1 @ snd (exact_taints p (existing_pools s1 ! i))\<rparr>"
    unfolding s2_def by (rule save_taints_eq[OF i1])
  have i2: "i < length (existing_pools s2)" using i1 by (simp add: e2)
  have e3: "save_labels p i s2 = s2\<lparr>existing_pools := (existing_pools s2)[i := fst (exact_labels p (existing_pools s2 ! i))],
       ps_trace := ps_trace s2 @ snd (exact_labels p (existing_pools s2 ! i))\<rparr>"
    by (rule save_labels_eq[OF i2])
  show ?thesis
    unfolding s1_def[symmetric] s2_def[symmetric] e3
    using i by (simp add: e2 e1 exact_update_def split: prod.splits)
qed


lemma stage_count_eq:
  "k < length (existing_pools s) \<Longrightarrow>
   stage_count p k (s, u) =
     (case loose_count p (existing_pools s ! k) of
        (c, ev, ch) \<Rightarrow> (s\<lparr>existing_pools := (existing_pools s)[k := c],
                          ps_trace := ps_trace s @ ev\<rparr>, u \<or> ch))"
  by (simp add: stage_count_def loose_count_def Let_def)

lemma stage_autoscaler_eq:
  "k < length (existing_pools s) \<Longrightarrow>
   stage_autoscaler p k (s, u) =
     (case loose_autoscaler p (existing_pools s ! k) of
        (c, ev, ch) \<Rightarrow> (s\<lparr>existing_pools := (existing_pools s)[k := c],
                          ps_trace := ps_trace s @ ev\<rparr>, u \<or> ch))"
  by (simp add: stage_autoscaler_def loose_autoscaler_def Let_def split: option.splits)

lemma stage_taints_eq:
  "k < length (existing_pools s) \<Longrightarrow>
   stage_taints p k (s, u) =
     (case loose_taints p (existing_pools s ! k) of
        (c, ev, ch) \<Rightarrow> (s\<lparr>existing_pools := (existing_pools s)[k := c],
                          ps_trace := ps_trace s @ ev\<rparr>, u \<or> ch))"
  by (simp add: stage_taints_def loose_taints_def Let_def split: option.splits)

lemma stage_labels_eq:
  "k < length (existing_pools s) \<Longrightarrow>
   stage_labels p k (s, u) =
     (case loose_labels p (existing_pools s ! k) of
        (c, ev, ch) \<Rightarrow> (s\<lparr>existing_pools := (existing_pools s)[k := c],
                          ps_trace := ps_trace s @ ev\<rparr>, u \<or> ch))"
  by (simp add: stage_labels_def loose_labels_def Let_def split: option.splits)

lemma stages_eq:
  assumes k: "k < length (existing_pools s)"
  shows "(case stage_labels p k (stage_taints p k (stage_autoscaler p k (stage_count p k (s, False)))) of
            (s1, should_update) \<Rightarrow>
              (if should_update
               then s1\<lparr>ps_trace := ps_trace s1 @ [PoolSave (existing_pools s1 ! k)]\<rparr>
               else s1)) =
         s\<lparr>existing_pools := (existing_pools s)[k := fst (loose_update p (existing_pools s ! k))],
           ps_trace := ps_trace s @ snd (loose_update p (existing_pools s ! k))\<rparr>"
proof -
  obtain c1 e1 u1 where l1: "loose_count p (existing_pools s ! k) = (c1, e1, u1)"
    by (cases "loose_count p (existing_pools s ! k)")
  obtain c2 e2 u2 where l2: "loose_autoscaler p c1 = (c2, e2, u2)" by (cases "loose_autoscaler p c1")
  obtain c3 e3 u3 where l3: "loose_taints p c2 = (c3, e3, u3)" by (cases "loose_taints p c2")
  obtain c4 e4 u4 where l4: "loose_labels p c3 = (c4, e4, u4)" by (cases "loose_labels p c3")
  define s1 where "s1 = s\<lparr>existing_pools := (existing_pools s)[k := c1], ps_trace := ps_trace s @ e1\<rparr>"
  define s2 where "s2 = s1\<lparr>existing_pools := (existing_pools s1)[k := c2], ps_trace := ps_trace s1 @ e2\<rparr>"
  define s3 where "s3 = s2\<lparr>existing_pools := (existing_pools s2)[k := c3], ps_trace := ps_trace s2 @ e3\<rparr>"
  define s4 where "s4 = s3\<lparr>existing_pools := (existing_pools s3)[k := c4], ps_trace := ps_trace s3 @ e4\<rparr>"
  have k1: "k < length (existing_pools s1)" "existing_pools s1 ! k = c1" using k by (simp_all add: s1_def)
  have k2: "k < length (existing_pools s2)" "existing_pools s2 ! k = c2" using k1 by (simp_all add: s2_def)
  have k3: "k < length (existing_pools s3)" "existing_pools s3 ! k = c3" using k2 by (simp_all add: s3_def)
  have k4: "k < length (existing_pools s4)" "existing_pools s4 ! k = c4" using k3 by (simp_all add: s4_def)
  have a1: "stage_count p k (s, False) = (s1, u1)"
    by (simp add: stage_count_eq[OF k] l1 s1_def)
  have a2: "stage_autoscaler p k (s1, u1) = (s2, u1 \<or> u2)"
    by (simp add: stage_autoscaler_eq[OF k1(1)] k1(2) l2 s2_def)
  have a3: "stage_taints p k (s2, u1 \<or> u2) = (s3, (u1 \<or> u2) \<or> u3)"
    by (simp add: stage_taints_eq[OF k2(1)] k2(2) l3 s3_def)
  have a4: "stage_labels p k (s3, (u1 \<or> u2) \<or> u3) = (s4, ((u1 \<or> u2) \<or> u3) \<or> u4)"
    by (simp add: stage_labels_eq[OF k3(1)] k3(2) l4 s4_def)
  have lu: "loose_update p (existing_pools s ! k) =
         (c4, e1 @ e2 @ e3 @ e4 @ (if u1 \<or> u2 \<or> u3 \<or> u4 then [PoolSave c4] else []))"
    by (simp add: loose_update_def l1 l2 l3 l4)
  show ?thesis
    unfolding a1 a2 a3 a4 lu
    using k by (simp add: k4 s4_def s3_def s2_def s1_def)
qed

lemma first_unkept_Some:
  "first_unkept P s = Some i \<Longrightarrow>
   i < length (existing_pools s) \<and> \<not> should_keep s ! i \<and> P (existing_pools s ! i)"
  unfolding first_unkept_def by (auto simp: find_Some_iff)

lemma exact_step_eq:
  "exact_step (k, p) s =
     (case first_unkept (exact_test p) s of
        None \<Rightarrow> s
      | Some i \<Rightarrow>
          s\<lparr>existing_pools := (existing_pools s)[i := fst (exact_update p (existing_pools s ! i))],
            ps_trace := ps_trace s @ snd (exact_update p (existing_pools s ! i)),
            pools_handled := (pools_handled s)[k := True],
            should_keep := (should_keep s)[i := True],
            ps_bound := ps_bound s @ [(k, i)]\<rparr>)"
proof (cases "first_unkept (exact_test p) s")
  case None
  then show ?thesis by (simp add: exact_step_def exact_test_def[abs_def])
next
  case (Some i)
  then have i: "i < length (existing_pools s)" by (simp add: first_unkept_Some)
  show ?thesis
    using Some by (simp add: exact_step_def exact_test_def[abs_def] saves_eq[OF i] Let_def)
qed

lemma loose_step_eq:
  "loose_step (k, p) s =
     (if pools_handled s ! k then s
      else (case first_unkept (type_test p) s of
              Some i \<Rightarrow>
                s\<lparr>existing_pools := (existing_pools s)[i := fst (loose_update p (existing_pools s ! i))],
                  ps_trace := ps_trace s @ snd (loose_update p (existing_pools s ! i)),
                  should_keep := (should_keep s)[i := True],
                  ps_bound := ps_bound s @ [(k, i)]\<rparr>
            | None \<Rightarrow> s\<lparr>ps_trace := ps_trace s @ create_events p\<rparr>))"
proof (cases "first_unkept (type_test p) s")
  case None
  then show ?thesis by (simp add: loose_step_def type_test_def[abs_def] create_events_def)
next
  case (Some i)
  then have i: "i < length (existing_pools s)" by (simp add: first_unkept_Some)
  have "loose_step (k, p) s =
     (if pools_handled s ! k then s
      else (let s2 = (case stage_labels p i (stage_taints p i (stage_autoscaler p i (stage_count p i (s, False)))) of
            (s1, should_update) \<Rightarrow>
              (if should_update
               then s1\<lparr>ps_trace := ps_trace s1 @ [PoolSave (existing_pools s1 ! i)]\<rparr>
               else s1))
            in s2\<lparr>should_keep := (should_keep s2)[i := True], ps_bound := ps_bound s2 @ [(k, i)]\<rparr>))"
    using Some by (simp add: loose_step_def type_test_def[abs_def] Let_def split: prod.splits)
  then show ?thesis
    unfolding stages_eq[OF i] using Some by (simp add: Let_def)
qed


lemma exact_update_events: "filter is_create_event (snd (exact_update p c)) = []"
  by (auto simp: exact_update_def exact_autoscaler_def exact_taints_def exact_labels_def
           split: option.splits prod.splits)

lemma loose_update_events: "filter is_create_event (snd (loose_update p c)) = []"
  by (auto simp: loose_update_def loose_count_def loose_autoscaler_def loose_taints_def
                 loose_labels_def split: option.splits prod.splits)

lemma inv_exact_step:
  assumes inv: "inv_exact M N n s" and n: "n < M"
  shows "inv_exact M N (Suc n) (exact_step (n, p) s)"
proof (cases "first_unkept (exact_test p) s")
  case None
  then have "exact_step (n, p) s = s" by (simp add: exact_step_eq)
  then show ?thesis using inv by (auto simp: inv_exact_def)
next
  case (Some i)
  from first_unkept_Some[OF Some] inv have i: "i < N" and nk: "\<not> should_keep s ! i"
    by (simp_all add: inv_exact_def)
  have fresh_i: "i \<notin> snd ` set (ps_bound s)"
    using inv nk by (auto simp: inv_exact_def)
  have fresh_n: "n \<notin> fst ` set (ps_bound s)"
    using inv by (auto simp: inv_exact_def)
  have lens: "length (pools_handled s) = M" "length (existing_pools s) = N" "length (should_keep s) = N"
    using inv by (simp_all add: inv_exact_def)
  have old: "\<forall>(k, j)\<in>set (ps_bound s). k < n \<and> j < N \<and> should_keep s ! j \<and> pools_handled s ! k"
    using inv by (simp add: inv_exact_def)
  have hb: "\<forall>k<M. pools_handled s ! k \<longrightarrow> k \<in> fst ` set (ps_bound s)"
    using inv by (simp add: inv_exact_def)
  have d: "distinct (map fst (ps_bound s))" "distinct (map snd (ps_bound s))"
    "filter is_create_event (ps_trace s) = []"
    using inv by (simp_all add: inv_exact_def)
  show ?thesis
    unfolding exact_step_eq Some inv_exact_def
    using lens old hb d fresh_i fresh_n i n
    by (auto simp: nth_list_update exact_update_events)
qed

lemma inv_exact_loop:
  "inv_exact M N n s \<Longrightarrow> n + length ps \<le> M \<Longrightarrow>
   inv_exact M N (n + length ps) (fold exact_step (enumerate n ps) s)"
proof (induction ps arbitrary: n s)
  case Nil
  then show ?case by simp
next
  case (Cons p ps)
  have "inv_exact M N (Suc n) (exact_step (n, p) s)"
    using Cons.prems by (intro inv_exact_step) simp_all
  from Cons.IH[OF this] Cons.prems(2) show ?case by simp
qed

lemma inv_exact_init: "inv_exact (length ps) (length R) 0 (init_pools ps R)"
  by (simp add: inv_exact_def init_pools_def)

lemma inv_exact_loose:
  "inv_exact (length ps) N (length ps) s \<Longrightarrow> inv_loose ps N 0 s"
  by (auto simp: inv_exact_def inv_loose_def unbound_creates_def)

lemma unbound_creates_snoc:
  "\<forall>(j, q)\<in>set kps. j \<noteq> k \<Longrightarrow> unbound_creates (bs @ [(k, i)]) kps = unbound_creates bs kps"
  unfolding unbound_creates_def
  by (intro arg_cong[where f = concat] map_cong) auto

lemma enumerate_take_Suc:
  "n < length ps \<Longrightarrow> enumerate 0 (take (Suc n) ps) = enumerate 0 (take n ps) @ [(n, ps ! n)]"
  by (simp add: take_Suc_conv_app_nth enumerate_append_eq)

lemma enumerate_take_fst: "\<forall>(j, q)\<in>set (enumerate 0 (take n ps)). j < n"
  by (auto simp: in_set_enumerate_eq)

lemma inv_loose_step:
  assumes inv: "inv_loose ps N n s" and n: "n < length ps"
  shows "inv_loose ps N (Suc n) (loose_step (n, ps ! n) s)"
proof -
  have lens: "length (pools_handled s) = length ps" "length (existing_pools s) = N" "length (should_keep s) = N"
    using inv by (simp_all add: inv_loose_def)
  have old: "\<forall>(k, j)\<in>set (ps_bound s). k < length ps \<and> j < N \<and> should_keep s ! j \<and> (pools_handled s ! k \<or> k < n)"
    using inv by (simp add: inv_loose_def)
  have hb: "\<forall>k<length ps. pools_handled s ! k \<longrightarrow> k \<in> fst ` set (ps_bound s)"
    using inv by (simp add: inv_loose_def)
  have d: "distinct (map fst (ps_bound s))" "distinct (map snd (ps_bound s))"
    using inv by (simp_all add: inv_loose_def)
  have cr: "filter is_create_event (ps_trace s) = unbound_creates (ps_bound s) (enumerate 0 (take n ps))"
    using inv by (simp add: inv_loose_def)
  have ne: "\<forall>(j, q)\<in>set (enumerate 0 (take n ps)). j \<noteq> n"
    using enumerate_take_fst[of n ps] by auto
  show ?thesis
  proof (cases "pools_handled s ! n")
    case True
    then have st: "loose_step (n, ps ! n) s = s" by (simp add: loose_step_eq)
    have "n \<in> fst ` set (ps_bound s)" using hb n True by simp
    then have "unbound_creates (ps_bound s) (enumerate 0 (take (Suc n) ps)) =
               unbound_creates (ps_bound s) (enumerate 0 (take n ps))"
      by (simp add: enumerate_take_Suc[OF n] unbound_creates_def)
    then show ?thesis
      unfolding st inv_loose_def using lens old hb d cr by (auto simp: less_Suc_eq)
  next
    case False
    have fresh_n: "n \<notin> fst ` set (ps_bound s)"
      using old False by auto
    show ?thesis
    proof (cases "first_unkept (type_test (ps ! n)) s")
      case None
      have st: "loose_step (n, ps ! n) s = s\<lparr>ps_trace := ps_trace s @ create_events (ps ! n)\<rparr>"
        using False None by (simp add: loose_step_eq)
      have c1: "filter is_create_event (create_events (ps ! n)) = create_events (ps ! n)"
        by (simp add: create_events_def)
      have "unbound_creates (ps_bound s) (enumerate 0 (take (Suc n) ps)) =
            unbound_creates (ps_bound s) (enumerate 0 (take n ps)) @ create_events (ps ! n)"
        using fresh_n by (simp add: enumerate_take_Suc[OF n] unbound_creates_def)
      then show ?thesis
        unfolding st inv_loose_def using lens old hb d cr c1 by (auto simp: less_Suc_eq)
    next
      case (Some i)
      from first_unkept_Some[OF Some] lens have i: "i < N" and nk: "\<not> should_keep s ! i"
        by simp_all
      have fresh_i: "i \<notin> snd ` set (ps_bound s)"
        using old nk by auto
      have st: "loose_step (n, ps ! n) s =
          s\<lparr>existing_pools := (existing_pools s)[i := fst (loose_update (ps ! n) (existing_pools s ! i))],
            ps_trace := ps_trace s @ snd (loose_update (ps ! n) (existing_pools s ! i)),
            should_keep := (should_keep s)[i := True],
            ps_bound := ps_bound s @ [(n, i)]\<rparr>"
        using False Some by (simp add: loose_step_eq)
      have u: "unbound_creates (ps_bound s @ [(n, i)]) (enumerate 0 (take (Suc n) ps)) =
            unbound_creates (ps_bound s) (enumerate 0 (take n ps))"
      proof -
        have "unbound_creates (ps_bound s @ [(n, i)]) (enumerate 0 (take (Suc n) ps)) =
              unbound_creates (ps_bound s @ [(n, i)]) (enumerate 0 (take n ps))"
          by (simp add: enumerate_take_Suc[OF n] unbound_creates_def)
        also have "\<dots> = unbound_creates (ps_bound s) (enumerate 0 (take n ps))"
          by (rule unbound_creates_snoc[OF ne])
        finally show ?thesis .
      qed
      show ?thesis
        unfolding st inv_loose_def
        using lens old hb d cr fresh_i fresh_n i n u
        by (auto simp: nth_list_update loose_update_events less_Suc_eq)
    qed
  qed
qed

lemma inv_loose_loop:
  "inv_loose ps N n s \<Longrightarrow> n \<le> length ps \<Longrightarrow>
   inv_loose ps N (length ps) (fold loose_step (enumerate n (drop n ps)) s)"
proof (induction "length ps - n" arbitrary: n s)
  case 0
  then show ?case by simp
next
  case (Suc m)
  then have n: "n < length ps" by simp
  have dr: "drop n ps = ps ! n # drop (Suc n) ps" using n by (simp add: Cons_nth_drop_Suc)
  have i1: "inv_loose ps N (Suc n) (loose_step (n, ps ! n) s)"
    by (rule inv_loose_step[OF Suc.prems(1) n])
  have "m = length ps - Suc n" using Suc.hyps(2) by simp
  from Suc.hyps(1)[OF this i1] n show ?case
    by (simp add: dr)
qed

lemma delete_unkept_creates:
  "filter is_create_event (ps_trace (delete_unkept s)) = filter is_create_event (ps_trace s)"
  by (simp add: delete_unkept_def filter_concat o_def)

lemma update_pools_inv:
  "inv_loose ps (length R) (length ps)
     (loose_loop ps (exact_loop ps (init_pools ps R)))"
proof -
  have "inv_exact (length ps) (length R) (0 + length ps) (exact_loop ps (init_pools ps R))"
    unfolding exact_loop_def by (rule inv_exact_loop[OF inv_exact_init]) simp
  then have "inv_loose ps (length R) 0 (exact_loop ps (init_pools ps R))"
    by (simp add: inv_exact_loose)
  from inv_loose_loop[OF this] show ?thesis by (simp add: loose_loop_def)
qed


lemma update_pools_bindings:
  "distinct (map fst (ps_bound (update_pools ps R))) \<and>
   distinct (map snd (ps_bound (update_pools ps R))) \<and>
   (\<forall>(k, i)\<in>set (ps_bound (update_pools ps R)).
      k < length ps \<and> i < length R \<and> should_keep (update_pools ps R) ! i) \<and>
   filter is_create_event (ps_trace (update_pools ps R)) =
     unbound_creates (ps_bound (update_pools ps R)) (enumerate 0 ps)"
proof -
  define s where "s = loose_loop ps (exact_loop ps (init_pools ps R))"
  have inv: "inv_loose ps (length R) (length ps) s"
    unfolding s_def by (rule update_pools_inv)
  have b: "ps_bound (update_pools ps R) = ps_bound s" "should_keep (update_pools ps R) = should_keep s"
    by (simp_all add: update_pools_def s_def delete_unkept_def)
  have c: "filter is_create_event (ps_trace (update_pools ps R)) = filter is_create_event (ps_trace s)"
    unfolding update_pools_def s_def by (rule delete_unkept_creates)
  show ?thesis
    unfolding b c using inv by (auto simp: inv_loose_def)
qed

subsection \<open>Desired pools of pairwise distinct types\<close>

lemma exact_update_keeps:
  "pool_type (fst (exact_update p c)) = pool_type c \<and>
   pool_count (fst (exact_update p c)) = pool_count c \<and>
   pool_id (fst (exact_update p c)) = pool_id c"
  by (auto simp: exact_update_def exact_autoscaler_def exact_taints_def exact_labels_def
           split: option.splits prod.splits)

lemma loose_update_keeps:
  "pool_type (fst (loose_update p c)) = pool_type c \<and>
   pool_id (fst (loose_update p c)) = pool_id c"
  by (auto simp: loose_update_def loose_count_def loose_autoscaler_def loose_taints_def
                 loose_labels_def split: option.splits prod.splits)

lemma find_upt_cong:
  "(\<And>i. i < n \<Longrightarrow> P i = Q i) \<Longrightarrow> find P [0..<n] = find Q [0..<n]"
  by (rule find_cong) auto

lemma find_upt_Some: "find P [0..<n] = Some i \<Longrightarrow> i < n \<and> P i"
  by (auto simp: find_Some_iff)

lemma distinct_types_earlier:
  assumes d: "distinct (map spec_type ps)" and n: "n < length ps" and q: "q \<in> set (take n ps)"
  shows "spec_type q \<noteq> spec_type (ps ! n)"
proof -
  from q obtain j where j: "j < n" "q = ps ! j"
    using n by (auto simp: in_set_conv_nth)
  have "j < length (map spec_type ps)" "n < length (map spec_type ps)" "j \<noteq> n"
    using j(1) n by simp_all
  with d have "map spec_type ps ! j \<noteq> map spec_type ps ! n"
    unfolding distinct_conv_nth by blast
  then show ?thesis using j n by simp
qed

lemma distinct_types_same:
  assumes d: "distinct (map spec_type ps)" and q: "q \<in> set ps" and n: "n < length ps"
    and t: "spec_type q = spec_type (ps ! n)"
  shows "q = ps ! n"
proof -
  from q obtain j where j: "j < length ps" "q = ps ! j" by (auto simp: in_set_conv_nth)
  have e: "map spec_type ps ! j = map spec_type ps ! n" using t j n by simp
  have "j < length (map spec_type ps)" "n < length (map spec_type ps)" using j(1) n by simp_all
  with d e have "j = n" unfolding distinct_conv_nth by blast
  then show ?thesis using j by simp
qed

lemma ex_idx_Some: "ex_idx R p = Some i \<Longrightarrow> i < length R \<and> exact_test p (R ! i)"
  unfolding ex_idx_def by (rule find_upt_Some)

lemma ty_idx_Some: "ty_idx R p = Some i \<Longrightarrow> i < length R \<and> type_test p (R ! i)"
  unfolding ty_idx_def by (rule find_upt_Some)

lemma inv_first_step:
  assumes inv: "inv_first R ps n s" and n: "n < length ps" and d: "distinct (map spec_type ps)"
  shows "inv_first R ps (Suc n) (exact_step (n, ps ! n) s)"
proof -
  let ?p = "ps ! n"
  have lens: "length (existing_pools s) = length R" "length (should_keep s) = length R"
    "length (pools_handled s) = length ps"
    using inv by (simp_all add: inv_first_def)
  have keep: "\<And>i. i < length R \<Longrightarrow> should_keep s ! i = (\<exists>p\<in>set (take n ps). ex_idx R p = Some i)"
    using inv by (simp add: inv_first_def)
  have same: "\<And>i. i < length R \<Longrightarrow> \<not> should_keep s ! i \<Longrightarrow> existing_pools s ! i = R ! i"
    using inv by (simp add: inv_first_def)
  have attrs: "\<And>i. i < length R \<Longrightarrow> pool_type (existing_pools s ! i) = pool_type (R ! i) \<and>
                     pool_count (existing_pools s ! i) = pool_count (R ! i) \<and>
                     pool_id (existing_pools s ! i) = pool_id (R ! i)"
    using inv by (simp add: inv_first_def)
  have handled: "\<And>k. k < length ps \<Longrightarrow> pools_handled s ! k = (k < n \<and> ex_idx R (ps ! k) \<noteq> None)"
    using inv by (simp add: inv_first_def)
  have tr: "ps_trace s = concat (map (events1 R) (take n ps))"
    using inv by (simp add: inv_first_def)
  have tk: "take (Suc n) ps = take n ps @ [?p]" using n by (simp add: take_Suc_conv_app_nth)
  have pred: "(\<not> should_keep s ! i \<and> exact_test ?p (existing_pools s ! i)) = exact_test ?p (R ! i)"
    if i: "i < length R" for i
  proof -
    have e: "exact_test ?p (existing_pools s ! i) = exact_test ?p (R ! i)"
      using attrs[OF i] by (simp add: exact_test_def)
    have "\<not> should_keep s ! i" if t: "exact_test ?p (R ! i)"
    proof
      assume "should_keep s ! i"
      then obtain q where q: "q \<in> set (take n ps)" "ex_idx R q = Some i" using keep[OF i] by auto
      from ex_idx_Some[OF q(2)] t have "spec_type q = spec_type ?p" by (simp add: exact_test_def)
      with distinct_types_earlier[OF d n q(1)] show False by simp
    qed
    with e show ?thesis by auto
  qed
  have fu: "first_unkept (exact_test ?p) s = ex_idx R ?p"
    unfolding first_unkept_def ex_idx_def lens by (rule find_upt_cong) (rule pred)
  show ?thesis
  proof (cases "ex_idx R ?p")
    case None
    have st: "exact_step (n, ?p) s = s" by (simp add: exact_step_eq fu None)
    show ?thesis
      unfolding st inv_first_def tk
      using lens keep same attrs handled tr None
      by (auto simp: events1_def less_Suc_eq)
  next
    case (Some i)
    from ex_idx_Some[OF Some] have i: "i < length R" by simp
    have nk: "\<not> should_keep s ! i" using first_unkept_Some[of "exact_test ?p" s i] fu Some by simp
    have ei: "existing_pools s ! i = R ! i" by (rule same[OF i nk])
    have st: "exact_step (n, ?p) s =
          s\<lparr>existing_pools := (existing_pools s)[i := fst (exact_update ?p (R ! i))],
            ps_trace := ps_trace s @ snd (exact_update ?p (R ! i)),
            pools_handled := (pools_handled s)[n := True],
            should_keep := (should_keep s)[i := True],
            ps_bound := ps_bound s @ [(n, i)]\<rparr>"
      by (simp add: exact_step_eq fu Some ei)
    have k': "\<And>j. j < length R \<Longrightarrow>
        (should_keep s)[i := True] ! j = (\<exists>p\<in>set (take n ps @ [?p]). ex_idx R p = Some j)"
    proof -
      fix j assume j: "j < length R"
      show "(should_keep s)[i := True] ! j = (\<exists>p\<in>set (take n ps @ [?p]). ex_idx R p = Some j)"
      proof (cases "j = i")
        case True
        then show ?thesis using Some lens i by simp
      next
        case False
        then have "(should_keep s)[i := True] ! j = should_keep s ! j" by simp
        also have "\<dots> = (\<exists>p\<in>set (take n ps). ex_idx R p = Some j)" by (rule keep[OF j])
        also have "\<dots> = (\<exists>p\<in>set (take n ps @ [?p]). ex_idx R p = Some j)"
          using Some False by auto
        finally show ?thesis .
      qed
    qed
    have s': "\<And>j. j < length R \<Longrightarrow> \<not> (should_keep s)[i := True] ! j \<Longrightarrow>
        (existing_pools s)[i := fst (exact_update ?p (R ! i))] ! j = R ! j"
    proof -
      fix j assume j: "j < length R" and nkj: "\<not> (should_keep s)[i := True] ! j"
      have "j \<noteq> i" using nkj i lens by auto
      then show "(existing_pools s)[i := fst (exact_update ?p (R ! i))] ! j = R ! j"
        using same[OF j] nkj by simp
    qed
    have a': "\<And>j. j < length R \<Longrightarrow>
        pool_type ((existing_pools s)[i := fst (exact_update ?p (R ! i))] ! j) = pool_type (R ! j) \<and>
        pool_count ((existing_pools s)[i := fst (exact_update ?p (R ! i))] ! j) = pool_count (R ! j) \<and>
        pool_id ((existing_pools s)[i := fst (exact_update ?p (R ! i))] ! j) = pool_id (R ! j)"
    proof -
      fix j assume j: "j < length R"
      show "pool_type ((existing_pools s)[i := fst (exact_update ?p (R ! i))] ! j) = pool_type (R ! j) \<and>
        pool_count ((existing_pools s)[i := fst (exact_update ?p (R ! i))] ! j) = pool_count (R ! j) \<and>
        pool_id ((existing_pools s)[i := fst (exact_update ?p (R ! i))] ! j) = pool_id (R ! j)"
      proof (cases "j = i")
        case True
        then show ?thesis using exact_update_keeps[of ?p "R ! i"] lens i by simp
      next
        case False
        then show ?thesis using attrs[OF j] by simp
      qed
    qed
    have h': "\<And>k. k < length ps \<Longrightarrow>
        (pools_handled s)[n := True] ! k = (k < Suc n \<and> ex_idx R (ps ! k) \<noteq> None)"
    proof -
      fix k assume k: "k < length ps"
      show "(pools_handled s)[n := True] ! k = (k < Suc n \<and> ex_idx R (ps ! k) \<noteq> None)"
      proof (cases "k = n")
        case True
        then show ?thesis using Some lens n by simp
      next
        case False
        then show ?thesis using handled[OF k] by (auto simp: less_Suc_eq)
      qed
    qed
    have t': "ps_trace s @ snd (exact_update ?p (R ! i)) = concat (map (events1 R) (take n ps @ [?p]))"
      using tr Some by (simp add: events1_def)
    show ?thesis
      unfolding st inv_first_def tk
      using lens k' s' a' h' t' by simp
  qed
qed

lemma inv_first_loop:
  "inv_first R ps n s \<Longrightarrow> n \<le> length ps \<Longrightarrow> distinct (map spec_type ps) \<Longrightarrow>
   inv_first R ps (length ps) (fold exact_step (enumerate n (drop n ps)) s)"
proof (induction "length ps - n" arbitrary: n s)
  case 0
  then show ?case by simp
next
  case (Suc m)
  then have n: "n < length ps" by simp
  have dr: "drop n ps = ps ! n # drop (Suc n) ps" using n by (simp add: Cons_nth_drop_Suc)
  have i1: "inv_first R ps (Suc n) (exact_step (n, ps ! n) s)"
    by (rule inv_first_step[OF Suc.prems(1) n Suc.prems(3)])
  have "m = length ps - Suc n" using Suc.hyps(2) by simp
  from Suc.hyps(1)[OF this i1 _ Suc.prems(3)] n show ?case
    by (simp add: dr)
qed


lemma inv_second_step:
  assumes inv: "inv_second R ps n s" and n: "n < length ps" and d: "distinct (map spec_type ps)"
  shows "inv_second R ps (Suc n) (loose_step (n, ps ! n) s)"
proof -
  let ?p = "ps ! n"
  have lens: "length (existing_pools s) = length R" "length (should_keep s) = length R"
    "length (pools_handled s) = length ps"
    using inv by (simp_all add: inv_second_def)
  have keep: "\<And>i. i < length R \<Longrightarrow> should_keep s ! i =
         ((\<exists>p\<in>set ps. ex_idx R p = Some i) \<or>
          (\<exists>p\<in>set (take n ps). ex_idx R p = None \<and> ty_idx R p = Some i))"
    using inv by (simp add: inv_second_def)
  have same: "\<And>i. i < length R \<Longrightarrow> \<not> should_keep s ! i \<Longrightarrow> existing_pools s ! i = R ! i"
    using inv by (simp add: inv_second_def)
  have attrs: "\<And>i. i < length R \<Longrightarrow> pool_type (existing_pools s ! i) = pool_type (R ! i) \<and>
                     pool_id (existing_pools s ! i) = pool_id (R ! i)"
    using inv by (simp add: inv_second_def)
  have handled: "\<And>k. k < length ps \<Longrightarrow> pools_handled s ! k = (ex_idx R (ps ! k) \<noteq> None)"
    using inv by (simp add: inv_second_def)
  have tr: "ps_trace s = concat (map (events1 R) ps) @ concat (map (events2 R) (take n ps))"
    using inv by (simp add: inv_second_def)
  have tk: "take (Suc n) ps = take n ps @ [?p]" using n by (simp add: take_Suc_conv_app_nth)
  have pin: "?p \<in> set ps" using n by simp
  show ?thesis
  proof (cases "ex_idx R ?p")
    case (Some i0)
    have st: "loose_step (n, ?p) s = s" using handled[OF n] Some by (simp add: loose_step_eq)
    have k': "\<And>i. i < length R \<Longrightarrow> should_keep s ! i =
         ((\<exists>p\<in>set ps. ex_idx R p = Some i) \<or>
          (\<exists>p\<in>set (take n ps @ [?p]). ex_idx R p = None \<and> ty_idx R p = Some i))"
      using keep Some by auto
    have t': "ps_trace s = concat (map (events1 R) ps) @ concat (map (events2 R) (take n ps @ [?p]))"
      using tr Some by (simp add: events2_def)
    show ?thesis
      unfolding st inv_second_def tk
      using lens k' same attrs handled t' by simp
  next
    case None
    have nh: "\<not> pools_handled s ! n" using handled[OF n] None by simp
    have pred: "(\<not> should_keep s ! i \<and> type_test ?p (existing_pools s ! i)) = type_test ?p (R ! i)"
      if i: "i < length R" for i
    proof -
      have e: "type_test ?p (existing_pools s ! i) = type_test ?p (R ! i)"
        using attrs[OF i] by (simp add: type_test_def)
      have "\<not> should_keep s ! i" if t: "type_test ?p (R ! i)"
      proof
        assume "should_keep s ! i"
        then consider q where "q \<in> set ps" "ex_idx R q = Some i"
          | q where "q \<in> set (take n ps)" "ex_idx R q = None" "ty_idx R q = Some i"
          using keep[OF i] by auto
        then show False
        proof cases
          case 1
          from ex_idx_Some[OF 1(2)] t have "spec_type q = spec_type ?p"
            by (simp add: exact_test_def type_test_def)
          from distinct_types_same[OF d 1(1) n this] 1(2) None show False by simp
        next
          case 2
          from ty_idx_Some[OF 2(3)] t have "spec_type q = spec_type ?p"
            by (simp add: type_test_def)
          with distinct_types_earlier[OF d n 2(1)] show False by simp
        qed
      qed
      with e show ?thesis by auto
    qed
    have fu: "first_unkept (type_test ?p) s = ty_idx R ?p"
      unfolding first_unkept_def ty_idx_def lens by (rule find_upt_cong) (rule pred)
    show ?thesis
    proof (cases "ty_idx R ?p")
      case tn: None
      have st: "loose_step (n, ?p) s = s\<lparr>ps_trace := ps_trace s @ create_events ?p\<rparr>"
        using nh fu tn by (simp add: loose_step_eq)
      have k': "\<And>i. i < length R \<Longrightarrow> should_keep s ! i =
         ((\<exists>p\<in>set ps. ex_idx R p = Some i) \<or>
          (\<exists>p\<in>set (take n ps @ [?p]). ex_idx R p = None \<and> ty_idx R p = Some i))"
        using keep tn by auto
      have t': "ps_trace s @ create_events ?p =
                concat (map (events1 R) ps) @ concat (map (events2 R) (take n ps @ [?p]))"
        using tr None tn by (simp add: events2_def)
      show ?thesis
        unfolding st inv_second_def tk
        using lens k' same attrs handled t' by simp
    next
      case (Some i)
      from ty_idx_Some[OF Some] have i: "i < length R" by simp
      have nk: "\<not> should_keep s ! i" using first_unkept_Some[of "type_test ?p" s i] fu Some by simp
      have ei: "existing_pools s ! i = R ! i" by (rule same[OF i nk])
      have st: "loose_step (n, ?p) s =
          s\<lparr>existing_pools := (existing_pools s)[i := fst (loose_update ?p (R ! i))],
            ps_trace := ps_trace s @ snd (loose_update ?p (R ! i)),
            should_keep := (should_keep s)[i := True],
            ps_bound := ps_bound s @ [(n, i)]\<rparr>"
        using nh fu Some by (simp add: loose_step_eq ei)
      have k': "\<And>j. j < length R \<Longrightarrow> (should_keep s)[i := True] ! j =
         ((\<exists>p\<in>set ps. ex_idx R p = Some j) \<or>
          (\<exists>p\<in>set (take n ps @ [?p]). ex_idx R p = None \<and> ty_idx R p = Some j))"
      proof -
        fix j assume j: "j < length R"
        show "(should_keep s)[i := True] ! j =
         ((\<exists>p\<in>set ps. ex_idx R p = Some j) \<or>
          (\<exists>p\<in>set (take n ps @ [?p]). ex_idx R p = None \<and> ty_idx R p = Some j))"
        proof (cases "j = i")
          case True
          then show ?thesis using Some None lens i by auto
        next
          case False
          then have "(should_keep s)[i := True] ! j = should_keep s ! j" by simp
          also have "\<dots> = ((\<exists>p\<in>set ps. ex_idx R p = Some j) \<or>
              (\<exists>p\<in>set (take n ps). ex_idx R p = None \<and> ty_idx R p = Some j))" by (rule keep[OF j])
          also have "\<dots> = ((\<exists>p\<in>set ps. ex_idx R p = Some j) \<or>
              (\<exists>p\<in>set (take n ps @ [?p]). ex_idx R p = None \<and> ty_idx R p = Some j))"
            using Some False by auto
          finally show ?thesis .
        qed
      qed
      have s': "\<And>j. j < length R \<Longrightarrow> \<not> (should_keep s)[i := True] ! j \<Longrightarrow>
          (existing_pools s)[i := fst (loose_update ?p (R ! i))] ! j = R ! j"
      proof -
        fix j assume j: "j < length R" and nkj: "\<not> (should_keep s)[i := True] ! j"
        have "j \<noteq> i" using nkj i lens by auto
        then show "(existing_pools s)[i := fst (loose_update ?p (R ! i))] ! j = R ! j"
          using same[OF j] nkj by simp
      qed
      have a': "\<And>j. j < length R \<Longrightarrow>
          pool_type ((existing_pools s)[i := fst (loose_update ?p (R ! i))] ! j) = pool_type (R ! j) \<and>
          pool_id ((existing_pools s)[i := fst (loose_update ?p (R ! i))] ! j) = pool_id (R ! j)"
      proof -
        fix j assume j: "j < length R"
        show "pool_type ((existing_pools s)[i := fst (loose_update ?p (R ! i))] ! j) = pool_type (R ! j) \<and>
          pool_id ((existing_pools s)[i := fst (loose_update ?p (R ! i))] ! j) = pool_id (R ! j)"
        proof (cases "j = i")
          case True
          then show ?thesis using loose_update_keeps[of ?p "R ! i"] lens i by simp
        next
          case False
          then show ?thesis using attrs[OF j] by simp
        qed
      qed
      have t': "ps_trace s @ snd (loose_update ?p (R ! i)) =
                concat (map (events1 R) ps) @ concat (map (events2 R) (take n ps @ [?p]))"
        using tr None Some by (simp add: events2_def)
      show ?thesis
        unfolding st inv_second_def tk
        using lens k' s' a' handled t' by simp
    qed
  qed
qed

lemma inv_second_loop:
  "inv_second R ps n s \<Longrightarrow> n \<le> length ps \<Longrightarrow> distinct (map spec_type ps) \<Longrightarrow>
   inv_second R ps (length ps) (fold loose_step (enumerate n (drop n ps)) s)"
proof (induction "length ps - n" arbitrary: n s)
  case 0
  then show ?case by simp
next
  case (Suc m)
  then have n: "n < length ps" by simp
  have dr: "drop n ps = ps ! n # drop (Suc n) ps" using n by (simp add: Cons_nth_drop_Suc)
  have i1: "inv_second R ps (Suc n) (loose_step (n, ps ! n) s)"
    by (rule inv_second_step[OF Suc.prems(1) n Suc.prems(3)])
  have "m = length ps - Suc n" using Suc.hyps(2) by simp
  from Suc.hyps(1)[OF this i1 _ Suc.prems(3)] n show ?case
    by (simp add: dr)
qed

lemma inv_first_init: "inv_first R ps 0 (init_pools ps R)"
  by (simp add: inv_first_def init_pools_def)

lemma inv_first_second: "inv_first R ps (length ps) s \<Longrightarrow> inv_second R ps 0 s"
  by (simp add: inv_first_def inv_second_def)

lemma update_pools_trace:
  assumes d: "distinct (map spec_type ps)"
  shows "ps_trace (update_pools ps R) =
           concat (map (events1 R) ps) @ concat (map (events2 R) ps) @ unbound_deletes R (set ps)"
proof -
  define s1 where "s1 = exact_loop ps (init_pools ps R)"
  define s2 where "s2 = loose_loop ps s1"
  have "inv_first R ps (length ps) s1"
    using inv_first_loop[OF inv_first_init _ d, of R] by (simp add: s1_def exact_loop_def)
  then have "inv_second R ps 0 s1" by (rule inv_first_second)
  from inv_second_loop[OF this _ d] have inv: "inv_second R ps (length ps) s2"
    by (simp add: s2_def loose_loop_def)
  have lens: "length (existing_pools s2) = length R" using inv by (simp add: inv_second_def)
  have keep: "\<And>i. i < length R \<Longrightarrow> should_keep s2 ! i = (\<exists>p\<in>set ps. bind_idx R p = Some i)"
  proof -
    fix i assume i: "i < length R"
    have "should_keep s2 ! i = ((\<exists>p\<in>set ps. ex_idx R p = Some i) \<or>
          (\<exists>p\<in>set ps. ex_idx R p = None \<and> ty_idx R p = Some i))"
      using inv i by (simp add: inv_second_def)
    also have "\<dots> = (\<exists>p\<in>set ps. bind_idx R p = Some i)"
    proof -
      have "bind_idx R p = Some i \<longleftrightarrow>
            ex_idx R p = Some i \<or> (ex_idx R p = None \<and> ty_idx R p = Some i)" for p
        by (cases "ex_idx R p") (simp_all add: bind_idx_def)
      then show ?thesis by blast
    qed
    finally show "should_keep s2 ! i = (\<exists>p\<in>set ps. bind_idx R p = Some i)" .
  qed
  have ids: "\<And>i. i < length R \<Longrightarrow> pool_id (existing_pools s2 ! i) = pool_id (R ! i)"
    using inv by (simp add: inv_second_def)
  have tr: "ps_trace s2 = concat (map (events1 R) ps) @ concat (map (events2 R) ps)"
    using inv by (simp add: inv_second_def)
  have del: "concat (map (\<lambda>i. if should_keep s2 ! i then []
                           else [DeletedPool (pool_id (existing_pools s2 ! i)),
                                 PoolDelete (pool_id (existing_pools s2 ! i))])
                    [0..<length (existing_pools s2)]) = unbound_deletes R (set ps)"
    unfolding unbound_deletes_def lens
    by (intro arg_cong[where f = concat] map_cong) (auto simp: keep ids)
  show ?thesis
    unfolding update_pools_def s1_def[symmetric] s2_def[symmetric] delete_unkept_def
    by (simp add: tr del)
qed

lemma mset_concat_map:
  "mset (concat (map f xs)) = (\<Sum>x\<in>#mset xs. mset (f x))"
  by (induction xs) auto

lemma update_pools_permutation:
  assumes p: "mset ps' = mset ps" and d: "distinct (map spec_type ps)"
  shows "mset (ps_trace (update_pools ps' R)) = mset (ps_trace (update_pools ps R))"
proof -
  have "mset (map spec_type ps') = mset (map spec_type ps)" using p by simp
  then have d': "distinct (map spec_type ps')" using d by (metis mset_eq_imp_distinct_iff)
  have s: "set ps' = set ps" using p by (rule mset_eq_setD)
  show ?thesis
    unfolding update_pools_trace[OF d] update_pools_trace[OF d']
    by (simp add: mset_concat_map p s)
qed

section \<open>Theorems: nodebalancer.py\<close>

lemma map_of_None_keys: "map_of d k = None \<longleftrightarrow> k \<notin> set (map fst d)"
  by (simp add: map_of_eq_None_iff)

lemma map_of_strip_ssl:
  "k \<noteq> ''ssl_cert'' \<Longrightarrow> k \<noteq> ''ssl_key'' \<Longrightarrow> map_of (strip_ssl c) k = map_of c k"
  by (induction c) (auto simp: strip_ssl_def)

lemma ssl_variant_map_of:
  "ssl_variant c c' \<Longrightarrow> k \<noteq> ''ssl_cert'' \<Longrightarrow> k \<noteq> ''ssl_key'' \<Longrightarrow> map_of c k = map_of c' k"
proof -
  assume v: "ssl_variant c c'" and k: "k \<noteq> ''ssl_cert''" "k \<noteq> ''ssl_key''"
  have "map_of c k = map_of (strip_ssl c) k" using k by (simp add: map_of_strip_ssl)
  also have "\<dots> = map_of (strip_ssl c') k" using v by (simp add: ssl_variant_def)
  also have "\<dots> = map_of c' k" using k by (simp add: map_of_strip_ssl)
  finally show ?thesis .
qed

lemma delete_twice_strip:
  "AList.delete ''ssl_key'' (AList.delete ''ssl_cert'' c) = strip_ssl c"
  by (induction c) (auto simp: strip_ssl_def AList.delete_eq)

lemma dict_pop_eq:
  "dict_pop k d = (if k \<notin> set (map fst d) then Inl (KeyError k)
                   else Inr (the (map_of d k), AList.delete k d))"
  unfolding dict_pop_def
  using map_of_eq_None_iff[of d k] by (cases "map_of d k") auto

lemma keys_delete: "set (map fst (AList.delete k d)) = set (map fst d) - {k}"
  by (induction d) (auto simp: AList.delete_eq)

lemma check_config_exists_strip:
  "check_config_exists target c =
     (if ''ssl_cert'' \<notin> set (map fst c) then Inl (KeyError ''ssl_cert'')
      else if ''ssl_key'' \<notin> set (map fst c) then Inl (KeyError ''ssl_key'')
      else (case find (config_matches (strip_ssl c)) target of
              Some r \<Rightarrow> Inr (True, Some r) | None \<Rightarrow> Inr (False, None)))"
proof (cases "''ssl_cert'' \<in> set (map fst c)")
  case False
  then show ?thesis by (simp add: check_config_exists_def dict_pop_eq)
next
  case cert: True
  show ?thesis
  proof (cases "''ssl_key'' \<in> set (map fst c)")
    case False
    then have "''ssl_key'' \<notin> set (map fst (AList.delete ''ssl_cert'' c))"
      unfolding keys_delete by simp
    with cert False show ?thesis
      by (simp add: check_config_exists_def dict_pop_eq)
  next
    case True
    then have "''ssl_key'' \<in> set (map fst (AList.delete ''ssl_cert'' c))"
      unfolding keys_delete by simp
    with cert True show ?thesis
      by (simp add: check_config_exists_def dict_pop_eq delete_twice_strip)
  qed
qed

lemma check_config_exists_variant:
  "ssl_variant c c' \<Longrightarrow> check_config_exists target c = check_config_exists target c'"
  unfolding check_config_exists_strip by (simp add: ssl_variant_def)

lemma nodes_step_variant: "ssl_variant c c' \<Longrightarrow> nodes_step i c = nodes_step i c'"
  unfolding nodes_step_def using ssl_variant_map_of[of c c' "''nodes''"] by simp

lemma recreate_variant:
  "ssl_variant c c' \<Longrightarrow> config_get_truthy ''recreate'' c = config_get_truthy ''recreate'' c'"
  unfolding config_get_truthy_def using ssl_variant_map_of[of c c' "''recreate''"] by simp

lemma plan_configs_variant:
  "list_all2 ssl_variant cs cs' \<Longrightarrow> plan_rel p p' \<Longrightarrow>
   rel_sum (=) plan_rel (plan_configs cs p) (plan_configs cs' p')"
proof (induction cs cs' arbitrary: p p' rule: list_all2_induct)
  case Nil
  then show ?case by simp
next
  case (Cons c cs c' cs')
  have td: "to_delete p = to_delete p'" using Cons.prems by (simp add: plan_rel_def)
  have chk: "check_config_exists (to_delete p) c = check_config_exists (to_delete p') c'"
    using check_config_exists_variant[OF Cons.hyps(1)] td by simp
  have rc: "config_get_truthy ''recreate'' c = config_get_truthy ''recreate'' c'"
    by (rule recreate_variant[OF Cons.hyps(1)])
  show ?case
  proof (cases "check_config_exists (to_delete p') c'")
    case (Inl e)
    then show ?thesis using chk by simp
  next
    case (Inr res)
    obtain ex r where res: "res = (ex, r)" by (cases res)
    have r1: "plan_rel (p\<lparr>to_create := to_create p @ [(c, r)]\<rparr>) (p'\<lparr>to_create := to_create p' @ [(c', r)]\<rparr>)"
      using Cons.prems Cons.hyps(1) by (simp add: plan_rel_def list_all2_appendI)
    have r2: "plan_rel (p\<lparr>to_update := to_update p @ [(c, x)], to_delete := remove1 x (to_delete p)\<rparr>)
                (p'\<lparr>to_update := to_update p' @ [(c', x)], to_delete := remove1 x (to_delete p')\<rparr>)" for x
      using Cons.prems Cons.hyps(1) by (simp add: plan_rel_def list_all2_appendI)
    have step: "plan_configs (c # cs) p =
        (if \<not> ex \<or> config_get_truthy ''recreate'' c
         then plan_configs cs (p\<lparr>to_create := to_create p @ [(c, r)]\<rparr>)
         else (case r of None \<Rightarrow> Inl (KeyError ''remove'')
               | Some x \<Rightarrow> plan_configs cs (p\<lparr>to_update := to_update p @ [(c, x)],
                               to_delete := remove1 x (to_delete p)\<rparr>)))"
      using chk Inr res by simp
    have step': "plan_configs (c' # cs') p' =
        (if \<not> ex \<or> config_get_truthy ''recreate'' c
         then plan_configs cs' (p'\<lparr>to_create := to_create p' @ [(c', r)]\<rparr>)
         else (case r of None \<Rightarrow> Inl (KeyError ''remove'')
               | Some x \<Rightarrow> plan_configs cs' (p'\<lparr>to_update := to_update p' @ [(c', x)],
                               to_delete := remove1 x (to_delete p')\<rparr>)))"
      using Inr res rc by simp
    show ?thesis
      unfolding step step'
      using Cons.IH[OF r1] Cons.IH[OF r2]
      by (cases r) simp_all
  qed
qed

lemma create_loop_variant:
  "list_all2 (\<lambda>x y. ssl_variant (fst x) (fst y) \<and> snd x = snd y) xs ys \<Longrightarrow>
   map redact (create_loop new_id n xs) = map redact (create_loop new_id n ys)"
proof (induction xs ys arbitrary: n rule: list_all2_induct)
  case Nil
  then show ?case by simp
next
  case (Cons x xs y ys)
  obtain c r where x: "x = (c, r)" by (cases x)
  obtain c' r' where y: "y = (c', r')" by (cases y)
  from Cons.hyps(1) x y have v: "ssl_variant c c'" by simp
  show ?case
    using Cons.IH[of "Suc n"] v nodes_step_variant[OF v]
    by (simp add: x y ssl_variant_def)
qed

lemma update_loop_variant:
  "list_all2 (\<lambda>x y. ssl_variant (fst x) (fst y) \<and> snd x = snd y) xs ys \<Longrightarrow>
   update_loop xs = update_loop ys"
proof (induction xs ys rule: list_all2_induct)
  case Nil
  then show ?case by simp
next
  case (Cons x xs y ys)
  then show ?case
    by (cases x; cases y) (auto simp: update_loop_def nodes_step_variant)
qed

lemma redact_nodes_step: "map redact (nodes_step i c) = nodes_step i c"
  by (auto simp: nodes_step_def split: option.splits jval.splits)

lemma redact_update_loop: "map redact (update_loop us) = update_loop us"
  by (induction us) (auto simp: update_loop_def redact_nodes_step)

lemma redact_delete_loop: "map redact (delete_loop ds) = delete_loop ds"
  by (induction ds) (auto simp: delete_loop_def delete_config_register_def)

lemma apply_plan_variant:
  "plan_rel p p' \<Longrightarrow> map redact (apply_plan new_id p) = map redact (apply_plan new_id p')"
proof -
  assume r: "plan_rel p p'"
  have c: "map redact (create_loop new_id 0 (to_create p)) = map redact (create_loop new_id 0 (to_create p'))"
    using r by (intro create_loop_variant) (simp add: plan_rel_def)
  have u: "update_loop (to_update p) = update_loop (to_update p')"
    using r by (intro update_loop_variant) (simp add: plan_rel_def)
  have d: "to_delete p = to_delete p'" using r by (simp add: plan_rel_def)
  show ?thesis
    unfolding apply_plan_def by (simp add: redact_update_loop redact_delete_loop c u d)
qed

text \<open>
  Claim C9.  Two desired configs that differ only in \<open>ssl_cert\<close> and \<open>ssl_key\<close> get the
  same answer from \<open>_check_config_exists\<close> against any set of remote configs (the same
  error when a key is missing).  Hence two lists of desired configs that differ only in
  those fields make \<open>_handle_configs\<close> issue the same deletes, creates and node updates
  with the same ledger entries; the traces differ at most in the \<open>ssl_cert\<close> and \<open>ssl_key\<close>
  carried inside the payload of a create call.
\<close>

theorem ssl_fields_never_decide:
  "(ssl_variant c c' \<longrightarrow> check_config_exists target c = check_config_exists target c') \<and>
   (list_all2 ssl_variant cs cs' \<longrightarrow>
      map_sum id (map redact) (handle_configs new_id (Some cs) remote_configs) =
      map_sum id (map redact) (handle_configs new_id (Some cs') remote_configs))"
proof (intro conjI impI)
  assume "ssl_variant c c'"
  then show "check_config_exists target c = check_config_exists target c'"
    by (rule check_config_exists_variant)
next
  assume v: "list_all2 ssl_variant cs cs'"
  have "plan_rel (init_plan remote_configs) (init_plan remote_configs)"
    by (simp add: plan_rel_def init_plan_def)
  from plan_configs_variant[OF v this]
  show "map_sum id (map redact) (handle_configs new_id (Some cs) remote_configs) =
        map_sum id (map redact) (handle_configs new_id (Some cs') remote_configs)"
    by (cases "plan_configs cs (init_plan remote_configs)";
        cases "plan_configs cs' (init_plan remote_configs)")
       (simp_all add: handle_configs_def apply_plan_variant)
qed

text \<open>
  A config whose certificate and key change while everything else matches the remote
  config: no operation and no ledger entry, before and after the change.
\<close>

theorem ssl_fields_never_decide_witness:
  "ssl_variant
     [(''port'', JInt 443), (''protocol'', JStr ''https''), (''ssl_cert'', JStr ''CERT-A''),
      (''ssl_key'', JStr ''KEY-A''), (''recreate'', JBool False), (''nodes'', JNull)]
     [(''port'', JInt 443), (''protocol'', JStr ''https''), (''ssl_cert'', JStr ''CERT-B''),
      (''ssl_key'', JStr ''KEY-B''), (''recreate'', JBool False), (''nodes'', JNull)] \<and>
   check_config_exists
     [\<lparr>config_id = 5, raw_json = [(''id'', JInt 5), (''port'', JInt 443),
        (''protocol'', JStr ''https''), (''ssl_cert'', JStr ''<REDACTED>''),
        (''ssl_key'', JStr ''<REDACTED>'')]\<rparr>]
     [(''port'', JInt 443), (''protocol'', JStr ''https''), (''ssl_cert'', JStr ''CERT-B''),
      (''ssl_key'', JStr ''KEY-B''), (''recreate'', JBool False), (''nodes'', JNull)]
   = Inr (True, Some \<lparr>config_id = 5, raw_json = [(''id'', JInt 5), (''port'', JInt 443),
        (''protocol'', JStr ''https''), (''ssl_cert'', JStr ''<REDACTED>''),
        (''ssl_key'', JStr ''<REDACTED>'')]\<rparr>) \<and>
   handle_configs (\<lambda>n. 100 + int n)
     (Some [[(''port'', JInt 443), (''protocol'', JStr ''https''), (''ssl_cert'', JStr ''CERT-B''),
             (''ssl_key'', JStr ''KEY-B''), (''recreate'', JBool False), (''nodes'', JNull)]])
     [\<lparr>config_id = 5, raw_json = [(''id'', JInt 5), (''port'', JInt 443),
        (''protocol'', JStr ''https''), (''ssl_cert'', JStr ''<REDACTED>''),
        (''ssl_key'', JStr ''<REDACTED>'')]\<rparr>]
   = Inr []"
proof -
  define c1 :: config where "c1 =
     [(''port'', JInt 443), (''protocol'', JStr ''https''), (''ssl_cert'', JStr ''CERT-A''),
      (''ssl_key'', JStr ''KEY-A''), (''recreate'', JBool False), (''nodes'', JNull)]"
  define c2 :: config where "c2 =
     [(''port'', JInt 443), (''protocol'', JStr ''https''), (''ssl_cert'', JStr ''CERT-B''),
      (''ssl_key'', JStr ''KEY-B''), (''recreate'', JBool False), (''nodes'', JNull)]"
  define r where "r = \<lparr>config_id = 5, raw_json = [(''id'', JInt 5), (''port'', JInt 443),
        (''protocol'', JStr ''https''), (''ssl_cert'', JStr ''<REDACTED>''),
        (''ssl_key'', JStr ''<REDACTED>'')]\<rparr>"
  have v: "ssl_variant c1 c2"
    unfolding c1_def c2_def by code_simp
  have e1: "check_config_exists [r] c1 = Inr (True, Some r)"
    unfolding c1_def r_def by code_simp
  have h1: "handle_configs (\<lambda>n. 100 + int n) (Some [c1]) [r] = Inr []"
    unfolding c1_def r_def by code_simp
  note inst = ssl_fields_never_decide[of c1 c2 "[r]" "[c1]" "[c2]" "\<lambda>n. 100 + int n" "[r]"]
  from inst v have e2: "check_config_exists [r] c2 = Inr (True, Some r)"
    using e1 by simp
  from inst v have "map_sum id (map redact) (handle_configs (\<lambda>n. 100 + int n) (Some [c2]) [r]) = Inr []"
    using h1 by simp
  then have h2: "handle_configs (\<lambda>n. 100 + int n) (Some [c2]) [r] = Inr []"
    by (cases "handle_configs (\<lambda>n. 100 + int n) (Some [c2]) [r]") simp_all
  show ?thesis
    using v e2 h2 unfolding c1_def c2_def r_def by simp
qed

lemma check_config_exists_cases:
  "check_config_exists target c = Inr (ex, ro) \<Longrightarrow>
   (ex \<and> (\<exists>r. ro = Some r \<and> r \<in> set target \<and> config_matches (strip_ssl c) r)) \<or>
   (\<not> ex \<and> ro = None)"
  unfolding check_config_exists_strip
  by (auto simp: find_Some_iff split: if_splits option.splits)

lemma plan_configs_kept_once:
  "plan_configs cs p = Inr p' \<Longrightarrow> plan_inv p \<Longrightarrow>
   plan_inv p' \<and>
   mset (map fst (to_create p')) + mset (map fst (to_update p')) =
     mset (map fst (to_create p)) + mset (map fst (to_update p)) + mset cs \<and>
   set (to_delete p') \<subseteq> set (to_delete p)"
proof (induction cs arbitrary: p)
  case Nil
  then show ?case by simp
next
  case (Cons c cs)
  from Cons.prems(1) obtain ex ro where chk: "check_config_exists (to_delete p) c = Inr (ex, ro)"
    by (cases "check_config_exists (to_delete p) c") (auto split: prod.splits)
  show ?case
  proof (cases "\<not> ex \<or> config_get_truthy ''recreate'' c")
    case True
    define p1 where "p1 = p\<lparr>to_create := to_create p @ [(c, ro)]\<rparr>"
    have st: "plan_configs cs p1 = Inr p'"
      using Cons.prems(1) chk True by (auto simp: p1_def split: if_splits)
    have "plan_inv p1" using Cons.prems(2) by (simp add: plan_inv_def p1_def)
    from Cons.IH[OF st this] show ?thesis by (simp add: p1_def)
  next
    case False
    with check_config_exists_cases[OF chk] obtain r where
      r: "ro = Some r" "r \<in> set (to_delete p)" by auto
    define p1 where "p1 = p\<lparr>to_update := to_update p @ [(c, r)], to_delete := remove1 r (to_delete p)\<rparr>"
    have st: "plan_configs cs p1 = Inr p'"
      using Cons.prems(1) chk False r by (auto simp: p1_def)
    have "r \<notin> set (map snd (to_update p))" using Cons.prems(2) r(2) by (auto simp: plan_inv_def)
    then have "plan_inv p1"
      using Cons.prems(2) by (auto simp: plan_inv_def p1_def)
    moreover have "set (remove1 r (to_delete p)) \<subseteq> set (to_delete p)"
      by (rule set_remove1_subset)
    ultimately show ?thesis using Cons.IH[OF st] by (auto simp: p1_def)
  qed
qed

section \<open>Theorems: firewall.py\<close>

lemma unkept_creates_snoc:
  "\<forall>(j, q)\<in>set ksp. j \<noteq> k \<Longrightarrow> unkept_creates (kept @ [(k, d)]) ksp = unkept_creates kept ksp"
  unfolding unkept_creates_def
  by (intro arg_cong[where f = concat] map_cong) auto

lemma enumerate_take_Suc':
  "n < length ps \<Longrightarrow> enumerate 0 (take (Suc n) ps) = enumerate 0 (take n ps) @ [(n, ps ! n)]"
  by (simp add: take_Suc_conv_app_nth enumerate_append_eq)

lemma map_of_delete_keys:
  "fst ` set (AList.delete k m) = fst ` set m - {k}"
  by (induction m) (auto simp: AList.delete_eq)

lemma devices_loop_inv:
  "fw_inv specs n s \<Longrightarrow> n \<le> length specs \<Longrightarrow>
   filter is_device_create (fw_trace s) = unkept_creates (fw_kept s) (enumerate 0 (take n specs)) \<Longrightarrow>
   fw_inv specs (length specs) (devices_loop n (drop n specs) s) \<and>
   filter is_device_create (fw_trace (devices_loop n (drop n specs) s)) =
     unkept_creates (fw_kept (devices_loop n (drop n specs) s)) (enumerate 0 specs)"
proof (induction "length specs - n" arbitrary: n s)
  case 0
  then show ?case by simp
next
  case (Suc m)
  then have n: "n < length specs" by simp
  have dr: "drop n specs = specs ! n # drop (Suc n) specs" using n by (simp add: Cons_nth_drop_Suc)
  have m: "m = length specs - Suc n" using Suc.hyps(2) by simp
  have ne: "\<forall>(j, q)\<in>set (enumerate 0 (take n specs)). j \<noteq> n"
    by (auto simp: in_set_enumerate_eq)
  have fresh_n: "n \<notin> fst ` set (fw_kept s)" using Suc.prems(1) by (auto simp: fw_inv_def)
  have cd: "filter is_device_create (create_device i t) = create_device i t" for i t
    by (simp add: create_device_def)
  have dd: "filter is_device_create (delete_device d) = []" for d
    by (simp add: delete_device_def)
  let ?sp = "specs ! n"
  show ?case
  proof (cases "map_of (device_map s) (ds_id ?sp)")
    case None
    define s1 where "s1 = s\<lparr>fw_trace := fw_trace s @ create_device (ds_id ?sp) (ds_type ?sp)\<rparr>"
    have st: "devices_loop n (drop n specs) s = devices_loop (Suc n) (drop (Suc n) specs) s1"
      using None by (simp add: dr s1_def)
    have i1: "fw_inv specs (Suc n) s1"
      using Suc.prems(1) by (auto simp: fw_inv_def s1_def less_Suc_eq)
    have c1: "filter is_device_create (fw_trace s1) = unkept_creates (fw_kept s1) (enumerate 0 (take (Suc n) specs))"
      using Suc.prems(3) fresh_n
      by (simp add: s1_def enumerate_take_Suc'[OF n] unkept_creates_def cd)
    from Suc.hyps(1)[OF m i1 _ c1] n show ?thesis unfolding st by simp
  next
    case (Some d)
    then have mem: "(ds_id ?sp, d) \<in> set (device_map s)" by (rule map_of_SomeD)
    then have eid: "entity_id d = ds_id ?sp" using Suc.prems(1) by (auto simp: fw_inv_def)
    show ?thesis
    proof (cases "entity_type d = ds_type ?sp")
      case True
      define s1 where "s1 = s\<lparr>device_map := AList.delete (ds_id ?sp) (device_map s),
                                fw_kept := fw_kept s @ [(n, d)]\<rparr>"
      have st: "devices_loop n (drop n specs) s = devices_loop (Suc n) (drop (Suc n) specs) s1"
        using Some True by (simp add: dr s1_def)
      have notkept: "entity_id d \<notin> (\<lambda>kd. entity_id (snd kd)) ` set (fw_kept s)"
      proof
        assume "entity_id d \<in> (\<lambda>kd. entity_id (snd kd)) ` set (fw_kept s)"
        then obtain k d' where kd: "(k, d') \<in> set (fw_kept s)" "entity_id d' = entity_id d" by auto
        have "\<forall>(k, d)\<in>set (fw_kept s). entity_id d \<notin> fst ` set (device_map s)"
          using Suc.prems(1) by (auto simp: fw_inv_def)
        with kd(1) have "entity_id d' \<notin> fst ` set (device_map s)" by blast
        moreover have "entity_id d \<in> fst ` set (device_map s)" using mem eid by force
        ultimately show False using kd(2) by simp
      qed
      have sub: "set (AList.delete (ds_id ?sp) (device_map s)) \<subseteq> set (device_map s)"
        by (auto simp: AList.delete_eq)
      have i1: "fw_inv specs (Suc n) s1"
        unfolding fw_inv_def s1_def
        using Suc.prems(1) fresh_n notkept n eid True sub
        by (auto simp: fw_inv_def AList.distinct_delete map_of_delete_keys less_Suc_eq)
      have c1: "filter is_device_create (fw_trace s1) = unkept_creates (fw_kept s1) (enumerate 0 (take (Suc n) specs))"
      proof -
        have "unkept_creates (fw_kept s @ [(n, d)]) (enumerate 0 (take (Suc n) specs)) =
              unkept_creates (fw_kept s @ [(n, d)]) (enumerate 0 (take n specs))"
          by (simp add: enumerate_take_Suc'[OF n] unkept_creates_def)
        also have "\<dots> = unkept_creates (fw_kept s) (enumerate 0 (take n specs))"
          by (rule unkept_creates_snoc[OF ne])
        finally show ?thesis using Suc.prems(3) by (simp add: s1_def)
      qed
      from Suc.hyps(1)[OF m i1 _ c1] n show ?thesis unfolding st by simp
    next
      case False
      define s1 where "s1 = s\<lparr>fw_trace := fw_trace s @ delete_device d @
                                  create_device (ds_id ?sp) (ds_type ?sp)\<rparr>"
      have st: "devices_loop n (drop n specs) s = devices_loop (Suc n) (drop (Suc n) specs) s1"
        using Some False by (simp add: dr s1_def)
      have i1: "fw_inv specs (Suc n) s1"
        using Suc.prems(1) by (auto simp: fw_inv_def s1_def less_Suc_eq)
      have c1: "filter is_device_create (fw_trace s1) = unkept_creates (fw_kept s1) (enumerate 0 (take (Suc n) specs))"
        using Suc.prems(3) fresh_n
        by (simp add: s1_def enumerate_take_Suc'[OF n] unkept_creates_def cd dd)
      from Suc.hyps(1)[OF m i1 _ c1] n show ?thesis unfolding st by simp
    qed
  qed
qed

lemma build_device_map_inv:
  "distinct (map fst (fold (\<lambda>d m. AList.update (entity_id d) d m) ds m0)) \<and>
   (\<forall>(i, d)\<in>set (fold (\<lambda>d m. AList.update (entity_id d) d m) ds m0). entity_id d = i)"
  if "distinct (map fst m0)" "\<forall>(i, d)\<in>set m0. entity_id d = i"
  using that
proof (induction ds arbitrary: m0)
  case Nil
  then show ?case by simp
next
  case (Cons d ds)
  have 1: "distinct (map fst (AList.update (entity_id d) d m0))"
    using Cons.prems(1) by (simp add: AList.distinct_update)
  have 2: "\<forall>(i, x)\<in>set (AList.update (entity_id d) d m0). entity_id x = i"
  proof (clarify)
    fix i x assume a: "(i, x) \<in> set (AList.update (entity_id d) d m0)"
    have "map_of (AList.update (entity_id d) d m0) i = Some x"
      using a 1 by simp
    then have "(i = entity_id d \<and> x = d) \<or> map_of m0 i = Some x"
      by (auto simp: AList.update_conv' split: if_splits)
    then show "entity_id x = i"
      using Cons.prems(2) by (auto dest: map_of_SomeD)
  qed
  from Cons.IH[OF 1 2] show ?case by simp
qed

subsection \<open>Devices of distinct ids\<close>

lemma update_absent: "k \<notin> fst ` set m \<Longrightarrow> AList.update k v m = m @ [(k, v)]"
  by (induction m) auto

lemma build_fold:
  "distinct (map fst m @ map entity_id xs) \<Longrightarrow>
   fold (\<lambda>d m. AList.update (entity_id d) d m) xs m = m @ id_map xs"
proof (induction xs arbitrary: m)
  case Nil
  then show ?case by (simp add: id_map_def)
next
  case (Cons x xs)
  have a: "entity_id x \<notin> fst ` set m" using Cons.prems by auto
  have d: "distinct (map fst (m @ [(entity_id x, x)]) @ map entity_id xs)"
    using Cons.prems by auto
  show ?case
    using Cons.IH[OF d] by (simp add: update_absent[OF a] id_map_def)
qed

lemma build_device_map_distinct:
  "distinct (map entity_id devs) \<Longrightarrow> build_device_map devs = id_map devs"
  unfolding build_device_map_def using build_fold[of "[]" devs] by simp

lemma map_of_id_map: "map_of (id_map xs) i = find (\<lambda>d. entity_id d = i) xs"
  by (induction xs) (auto simp: id_map_def)

lemma delete_id_map: "AList.delete i (id_map xs) = id_map (filter (\<lambda>d. entity_id d \<noteq> i) xs)"
  by (induction xs) (auto simp: id_map_def)

lemma find_filter_keep:
  "\<forall>x\<in>set xs. P x \<longrightarrow> Q x \<Longrightarrow> find P (filter Q xs) = find P xs"
  by (induction xs) auto

lemma find_unique:
  "distinct (map f xs) \<Longrightarrow> find (\<lambda>d. f d = i) xs = Some d \<Longrightarrow> x \<in> set xs \<Longrightarrow> f x = i \<Longrightarrow> x = d"
  by (induction xs) (auto split: if_splits simp: rev_image_eqI)

lemma find_both:
  assumes "distinct (map entity_id devs)"
  shows "find (\<lambda>d. entity_id d = ds_id sp \<and> entity_type d = ds_type sp) devs =
         (case find (\<lambda>d. entity_id d = ds_id sp) devs of
            None \<Rightarrow> None
          | Some d \<Rightarrow> if entity_type d = ds_type sp then Some d else None)"
  using assms
proof (induction devs)
  case Nil
  then show ?case by simp
next
  case (Cons a devs)
  show ?case
  proof (cases "entity_id a = ds_id sp")
    case True
    have "\<forall>x\<in>set devs. entity_id x \<noteq> ds_id sp"
      using Cons.prems True by (auto simp: image_iff)
    then have "find (\<lambda>d. entity_id d = ds_id sp \<and> entity_type d = ds_type sp) devs = None"
      by (auto simp: find_None_iff)
    then show ?thesis using True by simp
  next
    case False
    then show ?thesis using Cons by simp
  qed
qed

lemma kept_by_snoc:
  "kept_by (dn @ [sp]) x = (kept_by dn x \<or> (ds_id sp = entity_id x \<and> ds_type sp = entity_type x))"
  by (auto simp: kept_by_def)

lemma kept_pairs_Cons:
  "kept_pairs devs ((k, sp) # xs) =
     (case find (\<lambda>d. entity_id d = ds_id sp \<and> entity_type d = ds_type sp) devs of
        None \<Rightarrow> []
      | Some d \<Rightarrow> [(k, d)]) @ kept_pairs devs xs"
  by (simp add: kept_pairs_def)

lemma devices_loop_closed:
  assumes "distinct (map entity_id devs)"
    and "distinct (map ds_id (dn @ rest))"
    and "device_map s = id_map (filter (\<lambda>d. \<not> kept_by dn d) devs)"
  shows "device_map (devices_loop k rest s) = id_map (filter (\<lambda>d. \<not> kept_by (dn @ rest) d) devs) \<and>
         fw_trace (devices_loop k rest s) = fw_trace s @ concat (map (spec_events devs) rest) \<and>
         fw_kept (devices_loop k rest s) = fw_kept s @ kept_pairs devs (enumerate k rest)"
  using assms(2,3)
proof (induction rest arbitrary: k dn s)
  case Nil
  then show ?case by (simp add: kept_pairs_def)
next
  case (Cons sp rest)
  have dd: "distinct (map ds_id ((dn @ [sp]) @ rest))" using Cons.prems(1) by simp
  have fresh: "\<forall>q\<in>set dn. ds_id q \<noteq> ds_id sp" using Cons.prems(1) by (auto simp: image_iff)
  have "\<forall>x\<in>set devs. entity_id x = ds_id sp \<longrightarrow> \<not> kept_by dn x"
    using fresh by (auto simp: kept_by_def)
  then have look: "map_of (device_map s) (ds_id sp) = find (\<lambda>d. entity_id d = ds_id sp) devs"
    unfolding Cons.prems(2) map_of_id_map by (rule find_filter_keep)
  note both = find_both[OF assms(1), of sp]
  show ?case
  proof (cases "find (\<lambda>d. entity_id d = ds_id sp) devs")
    case None
    define s1 where "s1 = s\<lparr>fw_trace := fw_trace s @ create_device (ds_id sp) (ds_type sp)\<rparr>"
    have st: "devices_loop k (sp # rest) s = devices_loop (Suc k) rest s1"
      by (simp add: look None s1_def)
    have no: "\<forall>x\<in>set devs. entity_id x \<noteq> ds_id sp"
      using None by (auto simp: find_None_iff)
    have "filter (\<lambda>d. \<not> kept_by (dn @ [sp]) d) devs = filter (\<lambda>d. \<not> kept_by dn d) devs"
      using no by (intro filter_cong) (auto simp: kept_by_snoc)
    then have m1: "device_map s1 = id_map (filter (\<lambda>d. \<not> kept_by (dn @ [sp]) d) devs)"
      using Cons.prems(2) by (simp add: s1_def)
    have fb: "find (\<lambda>d. entity_id d = ds_id sp \<and> entity_type d = ds_type sp) devs = None"
        unfolding both None by simp
      have ev: "spec_events devs sp = create_device (ds_id sp) (ds_type sp)"
        by (simp add: spec_events_def None)
      have tr: "fw_trace s1 = fw_trace s @ spec_events devs sp" "fw_kept s1 = fw_kept s @
                  (case find (\<lambda>d. entity_id d = ds_id sp \<and> entity_type d = ds_type sp) devs of
                     None \<Rightarrow> [] | Some d \<Rightarrow> [(k, d)])"
        unfolding ev fb by (simp_all add: s1_def)
      note ih = Cons.IH[OF dd m1, of "Suc k"]
      have i1: "device_map (devices_loop (Suc k) rest s1) =
                id_map (filter (\<lambda>d. \<not> kept_by ((dn @ [sp]) @ rest) d) devs)"
        using ih by (rule conjunct1)
      have i2: "fw_trace (devices_loop (Suc k) rest s1) =
                fw_trace s1 @ concat (map (spec_events devs) rest)"
        using ih by (rule conjunct1[OF conjunct2])
      have i3: "fw_kept (devices_loop (Suc k) rest s1) =
                fw_kept s1 @ kept_pairs devs (enumerate (Suc k) rest)"
        using ih by (rule conjunct2[OF conjunct2])
      have l: "(dn @ [sp]) @ rest = dn @ sp # rest" by simp
      have en: "enumerate k (sp # rest) = (k, sp) # enumerate (Suc k) rest" by simp
      show ?thesis
        unfolding st i1 i2 i3 tr l en kept_pairs_Cons by simp
  next
    case (Some d)
    have din: "d \<in> set devs" "entity_id d = ds_id sp"
      using Some by (auto simp: find_Some_iff)
    have uniq: "\<forall>x\<in>set devs. entity_id x = ds_id sp \<longrightarrow> x = d"
      using find_unique[OF assms(1) Some] by blast
    show ?thesis
    proof (cases "entity_type d = ds_type sp")
      case True
      define s1 where "s1 = s\<lparr>device_map := AList.delete (ds_id sp) (device_map s),
                              fw_kept := fw_kept s @ [(k, d)]\<rparr>"
      have st: "devices_loop k (sp # rest) s = devices_loop (Suc k) rest s1"
        by (simp add: look Some True s1_def)
      have "filter (\<lambda>d. entity_id d \<noteq> ds_id sp) (filter (\<lambda>d. \<not> kept_by dn d) devs) =
            filter (\<lambda>d. \<not> kept_by (dn @ [sp]) d) devs"
      proof -
        have "(\<not> kept_by dn x \<and> entity_id x \<noteq> ds_id sp) = (\<not> kept_by (dn @ [sp]) x)"
          if x: "x \<in> set devs" for x
        proof (cases "entity_id x = ds_id sp")
          case True
          with uniq x have "x = d" by blast
          then show ?thesis using din \<open>entity_type d = ds_type sp\<close> by (simp add: kept_by_snoc)
        next
          case False
          then show ?thesis by (auto simp: kept_by_snoc)
        qed
        then show ?thesis unfolding filter_filter by (intro filter_cong) simp_all
      qed
      then have m1: "device_map s1 = id_map (filter (\<lambda>d. \<not> kept_by (dn @ [sp]) d) devs)"
        using Cons.prems(2) by (simp add: s1_def delete_id_map)
      have fb: "find (\<lambda>d. entity_id d = ds_id sp \<and> entity_type d = ds_type sp) devs = Some d"
        using True unfolding both Some by simp
      have ev: "spec_events devs sp = []"
        by (simp add: spec_events_def Some True)
      have tr: "fw_trace s1 = fw_trace s @ spec_events devs sp" "fw_kept s1 = fw_kept s @
                  (case find (\<lambda>d. entity_id d = ds_id sp \<and> entity_type d = ds_type sp) devs of
                     None \<Rightarrow> [] | Some d \<Rightarrow> [(k, d)])"
        unfolding ev fb by (simp_all add: s1_def)
      note ih = Cons.IH[OF dd m1, of "Suc k"]
      have i1: "device_map (devices_loop (Suc k) rest s1) =
                id_map (filter (\<lambda>d. \<not> kept_by ((dn @ [sp]) @ rest) d) devs)"
        using ih by (rule conjunct1)
      have i2: "fw_trace (devices_loop (Suc k) rest s1) =
                fw_trace s1 @ concat (map (spec_events devs) rest)"
        using ih by (rule conjunct1[OF conjunct2])
      have i3: "fw_kept (devices_loop (Suc k) rest s1) =
                fw_kept s1 @ kept_pairs devs (enumerate (Suc k) rest)"
        using ih by (rule conjunct2[OF conjunct2])
      have l: "(dn @ [sp]) @ rest = dn @ sp # rest" by simp
      have en: "enumerate k (sp # rest) = (k, sp) # enumerate (Suc k) rest" by simp
      show ?thesis
        unfolding st i1 i2 i3 tr l en kept_pairs_Cons by simp
    next
      case False
      define s1 where "s1 = s\<lparr>fw_trace := fw_trace s @ delete_device d @
                                            create_device (ds_id sp) (ds_type sp)\<rparr>"
      have st: "devices_loop k (sp # rest) s = devices_loop (Suc k) rest s1"
        by (simp add: look Some False s1_def)
      have "filter (\<lambda>d. \<not> kept_by (dn @ [sp]) d) devs = filter (\<lambda>d. \<not> kept_by dn d) devs"
      proof -
        have "(\<not> kept_by (dn @ [sp]) x) = (\<not> kept_by dn x)" if x: "x \<in> set devs" for x
        proof (cases "entity_id x = ds_id sp")
          case True
          with uniq x have "x = d" by blast
          then show ?thesis using \<open>entity_type d \<noteq> ds_type sp\<close> by (simp add: kept_by_snoc)
        next
          case False
          then show ?thesis by (auto simp: kept_by_snoc)
        qed
        then show ?thesis by (intro filter_cong) simp_all
      qed
      then have m1: "device_map s1 = id_map (filter (\<lambda>d. \<not> kept_by (dn @ [sp]) d) devs)"
        using Cons.prems(2) by (simp add: s1_def)
      have fb: "find (\<lambda>d. entity_id d = ds_id sp \<and> entity_type d = ds_type sp) devs = None"
        using False unfolding both Some by simp
      have ev: "spec_events devs sp = delete_device d @ create_device (ds_id sp) (ds_type sp)"
        by (simp add: spec_events_def Some False)
      have tr: "fw_trace s1 = fw_trace s @ spec_events devs sp" "fw_kept s1 = fw_kept s @
                  (case find (\<lambda>d. entity_id d = ds_id sp \<and> entity_type d = ds_type sp) devs of
                     None \<Rightarrow> [] | Some d \<Rightarrow> [(k, d)])"
        unfolding ev fb by (simp_all add: s1_def)
      note ih = Cons.IH[OF dd m1, of "Suc k"]
      have i1: "device_map (devices_loop (Suc k) rest s1) =
                id_map (filter (\<lambda>d. \<not> kept_by ((dn @ [sp]) @ rest) d) devs)"
        using ih by (rule conjunct1)
      have i2: "fw_trace (devices_loop (Suc k) rest s1) =
                fw_trace s1 @ concat (map (spec_events devs) rest)"
        using ih by (rule conjunct1[OF conjunct2])
      have i3: "fw_kept (devices_loop (Suc k) rest s1) =
                fw_kept s1 @ kept_pairs devs (enumerate (Suc k) rest)"
        using ih by (rule conjunct2[OF conjunct2])
      have l: "(dn @ [sp]) @ rest = dn @ sp # rest" by simp
      have en: "enumerate k (sp # rest) = (k, sp) # enumerate (Suc k) rest" by simp
      show ?thesis
        unfolding st i1 i2 i3 tr l en kept_pairs_Cons by simp
    qed
  qed
qed

lemma update_devices_closed:
  assumes "distinct (map ds_id specs)" and "distinct (map entity_id devs)"
  shows "fw_trace (update_devices specs devs) =
           concat (map (spec_events devs) specs) @
           concat (map delete_device (filter (\<lambda>d. \<not> kept_by specs d) devs)) \<and>
         map snd (device_map (update_devices specs devs)) = filter (\<lambda>d. \<not> kept_by specs d) devs \<and>
         fw_kept (update_devices specs devs) = kept_pairs devs (enumerate 0 specs)"
proof -
  define s0 where "s0 = \<lparr>device_map = build_device_map devs, fw_trace = [], fw_kept = []\<rparr>"
  have d: "distinct (map ds_id ([] @ specs))" using assms(1) by simp
  have m: "device_map s0 = id_map (filter (\<lambda>d. \<not> kept_by [] d) devs)"
    by (simp add: s0_def build_device_map_distinct[OF assms(2)] kept_by_def)
  note c = devices_loop_closed[OF assms(2) d m, of 0]
  have e: "concat (map (\<lambda>(i, d). delete_device d) (id_map xs)) = concat (map delete_device xs)" for xs
    by (induction xs) (simp_all add: id_map_def)
  have sn: "map snd (id_map xs) = xs" for xs
    by (induction xs) (simp_all add: id_map_def)
  show ?thesis
    using c unfolding update_devices_def Let_def s0_def[symmetric]
    by (simp add: e sn s0_def)
qed

lemma distinct_map_eq:
  "distinct (map f xs) \<Longrightarrow> x \<in> set xs \<Longrightarrow> y \<in> set xs \<Longrightarrow> f x = f y \<Longrightarrow> x = y"
  by (auto simp: distinct_map dest: inj_onD)

lemma find_id_Some:
  "find (\<lambda>d. entity_id d = i) devs = Some d \<Longrightarrow> d \<in> set devs \<and> entity_id d = i"
  by (auto simp: find_Some_iff)

lemma spec_events_deletes:
  assumes ids: "distinct (map ds_id specs)" and sp: "sp \<in> set specs"
    and e: "DeviceDelete i \<in> set (spec_events devs sp)"
  shows "\<exists>d\<in>set devs. \<not> kept_by specs d \<and> device_id d = i"
proof (cases "find (\<lambda>d. entity_id d = ds_id sp) devs")
  case None
  then show ?thesis using e by (simp add: spec_events_def create_device_def)
next
  case (Some d)
  note d = find_id_Some[OF Some]
  show ?thesis
  proof (cases "entity_type d = ds_type sp")
    case True
    then show ?thesis using e Some by (simp add: spec_events_def)
  next
    case False
    have i: "device_id d = i"
      using e Some False by (auto simp: spec_events_def create_device_def delete_device_def)
    have "\<not> kept_by specs d"
    proof
      assume "kept_by specs d"
      then obtain q where q: "q \<in> set specs" "ds_id q = entity_id d" "ds_type q = entity_type d"
        by (auto simp: kept_by_def)
      have "q = sp" using distinct_map_eq[OF ids q(1) sp] q(2) d by simp
      with q(3) False show False by simp
    qed
    with d i show ?thesis by blast
  qed
qed

lemma kept_not_deleted:
  assumes ids: "distinct (map ds_id specs)" and rids: "distinct (map entity_id devs)"
    and dids: "distinct (map device_id devs)"
    and d: "d \<in> set devs" and k: "kept_by specs d"
  shows "DeviceDelete (device_id d) \<notin> set (fw_trace (update_devices specs devs))"
proof
  assume a: "DeviceDelete (device_id d) \<in> set (fw_trace (update_devices specs devs))"
  have tr: "fw_trace (update_devices specs devs) =
              concat (map (spec_events devs) specs) @
              concat (map delete_device (filter (\<lambda>d. \<not> kept_by specs d) devs))"
    using update_devices_closed[OF ids rids] by (rule conjunct1)
  have "\<exists>d'\<in>set devs. \<not> kept_by specs d' \<and> device_id d' = device_id d"
  proof (cases "DeviceDelete (device_id d) \<in> set (concat (map (spec_events devs) specs))")
    case True
    then obtain sp where "sp \<in> set specs" "DeviceDelete (device_id d) \<in> set (spec_events devs sp)"
      by auto
    then show ?thesis by (rule spec_events_deletes[OF ids])
  next
    case False
    with a have "DeviceDelete (device_id d) \<in>
                 set (concat (map delete_device (filter (\<lambda>d. \<not> kept_by specs d) devs)))"
      unfolding tr by simp
    then show ?thesis by (auto simp: delete_device_def)
  qed
  then obtain d' where d': "d' \<in> set devs" "\<not> kept_by specs d'" "device_id d' = device_id d"
    by blast
  have "d' = d" using distinct_map_eq[OF dids d'(1) d] d'(3) by simp
  with d'(2) k show False by simp
qed

lemma kept_not_created:
  assumes ids: "distinct (map ds_id specs)" and rids: "distinct (map entity_id devs)"
    and sp: "sp \<in> set specs" and d: "d \<in> set devs"
    and m: "entity_id d = ds_id sp" "entity_type d = ds_type sp"
  shows "DeviceCreate (ds_id sp) (ds_type sp) \<notin> set (fw_trace (update_devices specs devs))"
proof
  assume a: "DeviceCreate (ds_id sp) (ds_type sp) \<in> set (fw_trace (update_devices specs devs))"
  have tr: "fw_trace (update_devices specs devs) =
              concat (map (spec_events devs) specs) @
              concat (map delete_device (filter (\<lambda>d. \<not> kept_by specs d) devs))"
    using update_devices_closed[OF ids rids] by (rule conjunct1)
  have "DeviceCreate (ds_id sp) (ds_type sp) \<notin>
          set (concat (map delete_device (filter (\<lambda>d. \<not> kept_by specs d) devs)))"
    by (auto simp: delete_device_def)
  with a obtain q where q: "q \<in> set specs" "DeviceCreate (ds_id sp) (ds_type sp) \<in> set (spec_events devs q)"
    unfolding tr by auto
  have "ds_id q = ds_id sp"
    using q(2) by (auto simp: spec_events_def create_device_def delete_device_def
                        split: option.splits if_splits)
  then have qs: "q = sp" using distinct_map_eq[OF ids q(1) sp] by simp
  have "find (\<lambda>d. entity_id d = ds_id sp) devs = Some d"
  proof (cases "find (\<lambda>d. entity_id d = ds_id sp) devs")
    case None
    then show ?thesis using d m(1) by (auto simp: find_None_iff)
  next
    case (Some d')
    note f = find_id_Some[OF Some]
    have "d' = d" using distinct_map_eq[OF rids _ d] f m(1) by simp
    then show ?thesis using Some by simp
  qed
  then have "spec_events devs sp = []" using m(2) by (simp add: spec_events_def)
  with q(2) qs show False by simp
qed

section \<open>Theorems: the pairs of desired and remote entries\<close>

lemma update_devices_kept:
  "fw_inv specs (length specs) (update_devices specs devs) \<and>
   filter is_device_create (fw_trace (update_devices specs devs)) =
     unkept_creates (fw_kept (update_devices specs devs)) (enumerate 0 specs)"
proof -
  define s0 where "s0 = \<lparr>device_map = build_device_map devs, fw_trace = [], fw_kept = []\<rparr>"
  define s where "s = devices_loop 0 specs s0"
  have m: "distinct (map fst (build_device_map devs)) \<and>
           (\<forall>(i, d)\<in>set (build_device_map devs). entity_id d = i)"
    unfolding build_device_map_def by (rule build_device_map_inv) simp_all
  have i0: "fw_inv specs 0 s0" using m by (simp add: fw_inv_def s0_def)
  have c0: "filter is_device_create (fw_trace s0) = unkept_creates (fw_kept s0) (enumerate 0 (take 0 specs))"
    by (simp add: s0_def unkept_creates_def)
  from devices_loop_inv[OF i0 _ c0] have
    inv: "fw_inv specs (length specs) s" and
    cr: "filter is_device_create (fw_trace s) = unkept_creates (fw_kept s) (enumerate 0 specs)"
    by (simp_all add: s_def)
  have dels: "filter is_device_create (concat (map (\<lambda>(i, d). delete_device d) xs)) = []" for xs
    by (induction xs) (auto simp: delete_device_def)
  have u: "update_devices specs devs =
           s\<lparr>fw_trace := fw_trace s @ concat (map (\<lambda>(i, d). delete_device d) (device_map s))\<rparr>"
    by (simp add: update_devices_def s_def s0_def Let_def)
  show ?thesis
    unfolding u using inv cr by (simp add: fw_inv_def dels)
qed

text \<open>
  Claim C1, as amended.  For the node pools of an LKE cluster the pairs the two loops
  form are one to one: no desired pool and no remote pool is in two pairs, a paired remote
  pool is marked as kept (and so skipped for every later desired pool), and the pools
  created are exactly those of the desired pools that are in no pair.
  For the configs of a NodeBalancer (the remote configs being a set, the matching loop
  ending with the plan \<open>p\<close>): a remote config kept for a desired config is taken out of the
  candidate set, no remote config is kept twice, and every desired config is in
  \<open>to_create\<close> or in \<open>to_update\<close>, once.  The claim is not made for a remote config matched
  by a desired config with \<open>recreate\<close> set.
  For the devices of a firewall, the desired devices having pairwise distinct ids and the
  remote devices pairwise distinct entity ids and device ids: the remote device kept for a
  desired device is the one of its id and type, no desired device and no remote device is
  kept twice, a kept remote device is taken out of \<open>device_map\<close> and never deleted, and a
  desired device that keeps one is not created.  The whole trace: for each desired device
  in input order nothing (kept), or its creation, preceded by the delete of a remote
  device of its id and another type; then the deletes of the remote devices that are not
  kept, in the order of the remote list (a device of another type deleted before a
  creation is among them, and so deleted a second time).
\<close>

theorem kept_bindings_one_to_one:
  assumes remote_set: "distinct remote_configs"
    and plan: "plan_configs cs (init_plan remote_configs) = Inr p"
    and desired_ids: "distinct (map ds_id specs)"
    and remote_ids: "distinct (map entity_id devs)"
    and device_ids: "distinct (map device_id devs)"
  shows "distinct (map fst (ps_bound (update_pools ps R))) \<and>
         distinct (map snd (ps_bound (update_pools ps R))) \<and>
         (\<forall>(k, i)\<in>set (ps_bound (update_pools ps R)).
            k < length ps \<and> i < length R \<and> should_keep (update_pools ps R) ! i) \<and>
         filter is_create_event (ps_trace (update_pools ps R)) =
           unbound_creates (ps_bound (update_pools ps R)) (enumerate 0 ps) \<and>
         distinct (map snd (to_update p)) \<and>
         set (map snd (to_update p)) \<inter> set (to_delete p) = {} \<and>
         mset (map fst (to_create p)) + mset (map fst (to_update p)) = mset cs \<and>
         distinct (map fst (fw_kept (update_devices specs devs))) \<and>
         distinct (map (\<lambda>kd. entity_id (snd kd)) (fw_kept (update_devices specs devs))) \<and>
         (\<forall>(k, d)\<in>set (fw_kept (update_devices specs devs)).
            k < length specs \<and>
            entity_id d \<notin> fst ` set (device_map (update_devices specs devs)) \<and>
            entity_id d = ds_id (specs ! k) \<and> entity_type d = ds_type (specs ! k)) \<and>
         filter is_device_create (fw_trace (update_devices specs devs)) =
           unkept_creates (fw_kept (update_devices specs devs)) (enumerate 0 specs) \<and>
         fw_kept (update_devices specs devs) = kept_pairs devs (enumerate 0 specs) \<and>
         map snd (device_map (update_devices specs devs)) =
           filter (\<lambda>d. \<not> kept_by specs d) devs \<and>
         fw_trace (update_devices specs devs) =
           concat (map (spec_events devs) specs) @
           concat (map delete_device (filter (\<lambda>d. \<not> kept_by specs d) devs)) \<and>
         (\<forall>d\<in>set devs. kept_by specs d \<longrightarrow>
            DeviceDelete (device_id d) \<notin> set (fw_trace (update_devices specs devs))) \<and>
         (\<forall>sp\<in>set specs.
            (\<exists>d\<in>set devs. entity_id d = ds_id sp \<and> entity_type d = ds_type sp) \<longrightarrow>
            DeviceCreate (ds_id sp) (ds_type sp) \<notin> set (fw_trace (update_devices specs devs)))"
proof -
  have i0: "plan_inv (init_plan remote_configs)"
    using remote_set by (simp add: plan_inv_def init_plan_def)
  from plan_configs_kept_once[OF plan i0] have
    n: "distinct (map snd (to_update p))" "set (map snd (to_update p)) \<inter> set (to_delete p) = {}"
       "mset (map fst (to_create p)) + mset (map fst (to_update p)) = mset cs"
    by (simp_all add: plan_inv_def init_plan_def)
  from update_devices_kept[of specs devs] have
    f: "distinct (map fst (fw_kept (update_devices specs devs)))"
       "distinct (map (\<lambda>kd. entity_id (snd kd)) (fw_kept (update_devices specs devs)))"
       "\<forall>(k, d)\<in>set (fw_kept (update_devices specs devs)).
            k < length specs \<and>
            entity_id d \<notin> fst ` set (device_map (update_devices specs devs)) \<and>
            entity_id d = ds_id (specs ! k) \<and> entity_type d = ds_type (specs ! k)"
       "filter is_device_create (fw_trace (update_devices specs devs)) =
           unkept_creates (fw_kept (update_devices specs devs)) (enumerate 0 specs)"
    by (auto simp: fw_inv_def)
  from update_devices_closed[OF desired_ids remote_ids] have
    c: "fw_kept (update_devices specs devs) = kept_pairs devs (enumerate 0 specs)"
       "map snd (device_map (update_devices specs devs)) = filter (\<lambda>d. \<not> kept_by specs d) devs"
       "fw_trace (update_devices specs devs) =
           concat (map (spec_events devs) specs) @
           concat (map delete_device (filter (\<lambda>d. \<not> kept_by specs d) devs))"
    by simp_all
  have k1: "\<forall>d\<in>set devs. kept_by specs d \<longrightarrow>
            DeviceDelete (device_id d) \<notin> set (fw_trace (update_devices specs devs))"
    using kept_not_deleted[OF desired_ids remote_ids device_ids] by blast
  have k2: "\<forall>sp\<in>set specs.
            (\<exists>d\<in>set devs. entity_id d = ds_id sp \<and> entity_type d = ds_type sp) \<longrightarrow>
            DeviceCreate (ds_id sp) (ds_type sp) \<notin> set (fw_trace (update_devices specs devs))"
    using kept_not_created[OF desired_ids remote_ids] by blast
  from update_pools_bindings[of ps R] n f c k1 k2 show ?thesis by blast
qed


text \<open>
  Claim C1 as stated fails for the configs of a NodeBalancer.  A desired config with
  \<open>recreate\<close> set matches the remote config 1 and leaves it in the candidate set; a second
  desired config then matches the same remote config and keeps it.  The remote config is
  paired with both desired configs, it is not deleted, and the first config is created
  beside it.
\<close>

theorem binding_counterexample:
  "plan_configs
     [[(''port'', JInt 80), (''ssl_cert'', JNull), (''ssl_key'', JNull), (''recreate'', JBool True)]]
     (init_plan [\<lparr>config_id = 1, raw_json = [(''id'', JInt 1), (''port'', JInt 80)]\<rparr>])
   = Inr \<lparr>to_create =
            [([(''port'', JInt 80), (''ssl_cert'', JNull), (''ssl_key'', JNull), (''recreate'', JBool True)],
              Some \<lparr>config_id = 1, raw_json = [(''id'', JInt 1), (''port'', JInt 80)]\<rparr>)],
          to_update = [],
          to_delete = [\<lparr>config_id = 1, raw_json = [(''id'', JInt 1), (''port'', JInt 80)]\<rparr>]\<rparr> \<and>
   plan_configs
     [[(''port'', JInt 80), (''ssl_cert'', JNull), (''ssl_key'', JNull), (''recreate'', JBool True)],
      [(''port'', JInt 80), (''ssl_cert'', JNull), (''ssl_key'', JNull), (''recreate'', JBool False)]]
     (init_plan [\<lparr>config_id = 1, raw_json = [(''id'', JInt 1), (''port'', JInt 80)]\<rparr>])
   = Inr \<lparr>to_create =
            [([(''port'', JInt 80), (''ssl_cert'', JNull), (''ssl_key'', JNull), (''recreate'', JBool True)],
              Some \<lparr>config_id = 1, raw_json = [(''id'', JInt 1), (''port'', JInt 80)]\<rparr>)],
          to_update =
            [([(''port'', JInt 80), (''ssl_cert'', JNull), (''ssl_key'', JNull), (''recreate'', JBool False)],
              \<lparr>config_id = 1, raw_json = [(''id'', JInt 1), (''port'', JInt 80)]\<rparr>)],
          to_delete = []\<rparr> \<and>
   \<not> distinct (map snd (nb_bindings
       \<lparr>to_create =
            [([(''port'', JInt 80), (''ssl_cert'', JNull), (''ssl_key'', JNull), (''recreate'', JBool True)],
              Some \<lparr>config_id = 1, raw_json = [(''id'', JInt 1), (''port'', JInt 80)]\<rparr>)],
          to_update =
            [([(''port'', JInt 80), (''ssl_cert'', JNull), (''ssl_key'', JNull), (''recreate'', JBool False)],
              \<lparr>config_id = 1, raw_json = [(''id'', JInt 1), (''port'', JInt 80)]\<rparr>)],
          to_delete = []\<rparr>)) \<and>
   handle_configs (\<lambda>n. 100 + int n)
     (Some [[(''port'', JInt 80), (''ssl_cert'', JNull), (''ssl_key'', JNull), (''recreate'', JBool True)],
      [(''port'', JInt 80), (''ssl_cert'', JNull), (''ssl_key'', JNull), (''recreate'', JBool False)]])
     [\<lparr>config_id = 1, raw_json = [(''id'', JInt 1), (''port'', JInt 80)]\<rparr>]
   = Inr [ConfigCreate [(''port'', JInt 80), (''ssl_cert'', JNull), (''ssl_key'', JNull),
                        (''recreate'', JBool True)],
          CreatedConfig 100]"
  by code_simp

text \<open>
  Two desired devices of one id: the remote device 50 is deleted for the first (another
  type) and stays in \<open>device_map\<close>, then it is kept for the second, which is not created.
  Two remote devices of one entity id: \<open>device_map\<close> holds the later one only, so the
  desired device that the earlier one matches is created again and the later one deleted.
\<close>

lemma shared_device_id_example:
  "fw_trace (update_devices
     [\<lparr>ds_id = 5, ds_type = ''nodebalancer''\<rparr>, \<lparr>ds_id = 5, ds_type = ''linode''\<rparr>]
     [\<lparr>device_id = 50, entity_id = 5, entity_type = ''linode''\<rparr>])
   = [DeletedDevice 5 ''linode'', DeviceDelete 50,
      DeviceCreate 5 ''nodebalancer'', CreatedDevice 5 ''nodebalancer''] \<and>
   fw_kept (update_devices
     [\<lparr>ds_id = 5, ds_type = ''nodebalancer''\<rparr>, \<lparr>ds_id = 5, ds_type = ''linode''\<rparr>]
     [\<lparr>device_id = 50, entity_id = 5, entity_type = ''linode''\<rparr>])
   = [(1, \<lparr>device_id = 50, entity_id = 5, entity_type = ''linode''\<rparr>)] \<and>
   fw_trace (update_devices
     [\<lparr>ds_id = 5, ds_type = ''linode''\<rparr>, \<lparr>ds_id = 5, ds_type = ''nodebalancer''\<rparr>]
     [\<lparr>device_id = 50, entity_id = 5, entity_type = ''linode''\<rparr>,
      \<lparr>device_id = 51, entity_id = 5, entity_type = ''nodebalancer''\<rparr>])
   = [DeletedDevice 5 ''nodebalancer'', DeviceDelete 51,
      DeviceCreate 5 ''linode'', CreatedDevice 5 ''linode'']"
  by code_simp

text \<open>
  One config kept; two pools bound; three desired devices against three remote devices:
  device 50 is kept, device 6 is new, device 51 has the id 7 and another type, device 52
  is not wanted.
\<close>

theorem kept_bindings_one_to_one_witness:
  "distinct [\<lparr>config_id = 1, raw_json = [(''id'', JInt 1), (''port'', JInt 80)]\<rparr>] \<and>
   plan_configs
     [[(''port'', JInt 80), (''ssl_cert'', JNull), (''ssl_key'', JNull), (''recreate'', JBool False)]]
     (init_plan [\<lparr>config_id = 1, raw_json = [(''id'', JInt 1), (''port'', JInt 80)]\<rparr>])
   = Inr \<lparr>to_create = [],
          to_update =
            [([(''port'', JInt 80), (''ssl_cert'', JNull), (''ssl_key'', JNull), (''recreate'', JBool False)],
              \<lparr>config_id = 1, raw_json = [(''id'', JInt 1), (''port'', JInt 80)]\<rparr>)],
          to_delete = []\<rparr> \<and>
   ps_bound (update_pools
     [\<lparr>spec_type = ''A'', spec_count = 3, spec_autoscaler = None :: nat option,
       spec_taints = None, spec_labels = None\<rparr>,
      \<lparr>spec_type = ''B'', spec_count = 2, spec_autoscaler = None,
       spec_taints = None, spec_labels = None\<rparr>]
     [\<lparr>pool_id = 7, pool_type = ''B'', pool_count = 1, pool_autoscaler = 0, pool_taints = 0,
       pool_labels = 0\<rparr>,
      \<lparr>pool_id = 8, pool_type = ''A'', pool_count = 3, pool_autoscaler = 0, pool_taints = 0,
       pool_labels = 0\<rparr>]) = [(0, 1), (1, 0)] \<and>
   filter is_create_event (ps_trace (update_pools
     [\<lparr>spec_type = ''A'', spec_count = 3, spec_autoscaler = None :: nat option,
       spec_taints = None, spec_labels = None\<rparr>,
      \<lparr>spec_type = ''B'', spec_count = 2, spec_autoscaler = None,
       spec_taints = None, spec_labels = None\<rparr>]
     [\<lparr>pool_id = 7, pool_type = ''B'', pool_count = 1, pool_autoscaler = 0, pool_taints = 0,
       pool_labels = 0\<rparr>,
      \<lparr>pool_id = 8, pool_type = ''A'', pool_count = 3, pool_autoscaler = 0, pool_taints = 0,
       pool_labels = 0\<rparr>])) = [] \<and>
   distinct (map ds_id
     [\<lparr>ds_id = 5, ds_type = ''linode''\<rparr>, \<lparr>ds_id = 6, ds_type = ''linode''\<rparr>,
      \<lparr>ds_id = 7, ds_type = ''nodebalancer''\<rparr>]) \<and>
   distinct (map entity_id
     [\<lparr>device_id = 50, entity_id = 5, entity_type = ''linode''\<rparr>,
      \<lparr>device_id = 51, entity_id = 7, entity_type = ''linode''\<rparr>,
      \<lparr>device_id = 52, entity_id = 8, entity_type = ''linode''\<rparr>]) \<and>
   distinct (map device_id
     [\<lparr>device_id = 50, entity_id = 5, entity_type = ''linode''\<rparr>,
      \<lparr>device_id = 51, entity_id = 7, entity_type = ''linode''\<rparr>,
      \<lparr>device_id = 52, entity_id = 8, entity_type = ''linode''\<rparr>]) \<and>
   fw_kept (update_devices
     [\<lparr>ds_id = 5, ds_type = ''linode''\<rparr>, \<lparr>ds_id = 6, ds_type = ''linode''\<rparr>,
      \<lparr>ds_id = 7, ds_type = ''nodebalancer''\<rparr>]
     [\<lparr>device_id = 50, entity_id = 5, entity_type = ''linode''\<rparr>,
      \<lparr>device_id = 51, entity_id = 7, entity_type = ''linode''\<rparr>,
      \<lparr>device_id = 52, entity_id = 8, entity_type = ''linode''\<rparr>])
   = [(0, \<lparr>device_id = 50, entity_id = 5, entity_type = ''linode''\<rparr>)] \<and>
   fw_trace (update_devices
     [\<lparr>ds_id = 5, ds_type = ''linode''\<rparr>, \<lparr>ds_id = 6, ds_type = ''linode''\<rparr>,
      \<lparr>ds_id = 7, ds_type = ''nodebalancer''\<rparr>]
     [\<lparr>device_id = 50, entity_id = 5, entity_type = ''linode''\<rparr>,
      \<lparr>device_id = 51, entity_id = 7, entity_type = ''linode''\<rparr>,
      \<lparr>device_id = 52, entity_id = 8, entity_type = ''linode''\<rparr>])
   = [DeviceCreate 6 ''linode'', CreatedDevice 6 ''linode'',
      DeletedDevice 7 ''linode'', DeviceDelete 51,
      DeviceCreate 7 ''nodebalancer'', CreatedDevice 7 ''nodebalancer'',
      DeletedDevice 7 ''linode'', DeviceDelete 51,
      DeletedDevice 8 ''linode'', DeviceDelete 52]"
proof -
  define r where "r = \<lparr>config_id = 1, raw_json = [(''id'', JInt 1), (''port'', JInt 80)]\<rparr>"
  define c :: config where
    "c = [(''port'', JInt 80), (''ssl_cert'', JNull), (''ssl_key'', JNull), (''recreate'', JBool False)]"
  define PS :: "nat pool_spec list" where
    "PS = [\<lparr>spec_type = ''A'', spec_count = 3, spec_autoscaler = None,
            spec_taints = None, spec_labels = None\<rparr>,
           \<lparr>spec_type = ''B'', spec_count = 2, spec_autoscaler = None,
            spec_taints = None, spec_labels = None\<rparr>]"
  define R :: "nat pool list" where
    "R = [\<lparr>pool_id = 7, pool_type = ''B'', pool_count = 1, pool_autoscaler = 0, pool_taints = 0,
           pool_labels = 0\<rparr>,
          \<lparr>pool_id = 8, pool_type = ''A'', pool_count = 3, pool_autoscaler = 0, pool_taints = 0,
           pool_labels = 0\<rparr>]"
  define SP where "SP = [\<lparr>ds_id = 5, ds_type = ''linode''\<rparr>, \<lparr>ds_id = 6, ds_type = ''linode''\<rparr>,
                         \<lparr>ds_id = 7, ds_type = ''nodebalancer''\<rparr>]"
  define DV where "DV = [\<lparr>device_id = 50, entity_id = 5, entity_type = ''linode''\<rparr>,
                         \<lparr>device_id = 51, entity_id = 7, entity_type = ''linode''\<rparr>,
                         \<lparr>device_id = 52, entity_id = 8, entity_type = ''linode''\<rparr>]"
  have h1: "distinct [r]" by simp
  have h2: "plan_configs [c] (init_plan [r]) = Inr \<lparr>to_create = [], to_update = [(c, r)], to_delete = []\<rparr>"
    unfolding c_def r_def by code_simp
  have h3: "distinct (map ds_id SP)" unfolding SP_def by simp
  have h4: "distinct (map entity_id DV)" unfolding DV_def by simp
  have h5: "distinct (map device_id DV)" unfolding DV_def by simp
  have b: "ps_bound (update_pools PS R) = [(0, 1), (1, 0)]"
    unfolding PS_def R_def by code_simp
  note t = kept_bindings_one_to_one[OF h1 h2 h3 h4 h5, of PS R]
  from t have cr: "filter is_create_event (ps_trace (update_pools PS R)) =
                   unbound_creates (ps_bound (update_pools PS R)) (enumerate 0 PS)"
    by blast
  from t have fk: "fw_kept (update_devices SP DV) = kept_pairs DV (enumerate 0 SP)"
    by blast
  from t have ft: "fw_trace (update_devices SP DV) =
                   concat (map (spec_events DV) SP) @
                   concat (map delete_device (filter (\<lambda>d. \<not> kept_by SP d) DV))"
    by blast
  have cr': "filter is_create_event (ps_trace (update_pools PS R)) = []"
    unfolding cr b by (simp add: unbound_creates_def PS_def)
  have fk': "fw_kept (update_devices SP DV) =
             [(0, \<lparr>device_id = 50, entity_id = 5, entity_type = ''linode''\<rparr>)]"
    unfolding fk SP_def DV_def by code_simp
  have ft': "fw_trace (update_devices SP DV) =
             [DeviceCreate 6 ''linode'', CreatedDevice 6 ''linode'',
              DeletedDevice 7 ''linode'', DeviceDelete 51,
              DeviceCreate 7 ''nodebalancer'', CreatedDevice 7 ''nodebalancer'',
              DeletedDevice 7 ''linode'', DeviceDelete 51,
              DeletedDevice 8 ''linode'', DeviceDelete 52]"
    unfolding ft SP_def DV_def by code_simp
  show ?thesis
    using h1 h2 h3 h4 h5 b cr' fk' ft' unfolding r_def c_def PS_def R_def SP_def DV_def by simp
qed

section \<open>Theorems: the order of application\<close>













lemma remove1_filter_distinct:
  "distinct xs \<Longrightarrow> remove1 r (filter P xs) = filter (\<lambda>x. P x \<and> x \<noteq> r) xs"
  by (induction xs) (auto simp: remove1_idem)

lemma plan_configs_deletes:
  "plan_configs cs p = Inr p' \<Longrightarrow> distinct remote \<Longrightarrow>
   to_delete p = filter (\<lambda>r. r \<notin> set (map snd (to_update p))) remote \<Longrightarrow>
   to_delete p' = filter (\<lambda>r. r \<notin> set (map snd (to_update p'))) remote"
proof (induction cs arbitrary: p)
  case Nil
  then show ?case by simp
next
  case (Cons c cs)
  from Cons.prems(1) obtain ex ro where chk: "check_config_exists (to_delete p) c = Inr (ex, ro)"
    by (cases "check_config_exists (to_delete p) c") (auto split: prod.splits)
  show ?case
  proof (cases "\<not> ex \<or> config_get_truthy ''recreate'' c")
    case True
    define p1 where "p1 = p\<lparr>to_create := to_create p @ [(c, ro)]\<rparr>"
    have st: "plan_configs cs p1 = Inr p'"
      using Cons.prems(1) chk True by (auto simp: p1_def split: if_splits)
    have "to_delete p1 = filter (\<lambda>r. r \<notin> set (map snd (to_update p1))) remote"
      using Cons.prems(3) by (simp add: p1_def)
    from Cons.IH[OF st Cons.prems(2) this] show ?thesis .
  next
    case False
    with check_config_exists_cases[OF chk] obtain r where r: "ro = Some r" by auto
    define p1 where "p1 = p\<lparr>to_update := to_update p @ [(c, r)], to_delete := remove1 r (to_delete p)\<rparr>"
    have st: "plan_configs cs p1 = Inr p'"
      using Cons.prems(1) chk False r by (auto simp: p1_def)
    have "to_delete p1 = filter (\<lambda>x. x \<notin> set (map snd (to_update p1))) remote"
      unfolding p1_def using Cons.prems(3) remove1_filter_distinct[OF Cons.prems(2)]
      by (auto intro: filter_cong)
    from Cons.IH[OF st Cons.prems(2) this] show ?thesis .
  qed
qed





subsection \<open>Desired configs that share no remote config\<close>

lemma find_filter_same:
  "\<forall>x\<in>set xs. P x \<longrightarrow> Q x \<Longrightarrow> find P (filter Q xs) = find P xs"
  by (induction xs) auto

lemma unambiguous_tail: "unambiguous remote (c # cs) \<Longrightarrow> unambiguous remote cs"
  unfolding unambiguous_def by (auto split: if_splits)

lemma unambiguous_head:
  assumes u: "unambiguous remote (c # cs)" and r: "r \<in> set remote"
    and m: "config_matches (strip_ssl c) r" and c': "c' \<in> set cs"
  shows "\<not> config_matches (strip_ssl c') r"
proof
  assume "config_matches (strip_ssl c') r"
  then have "filter (\<lambda>c. config_matches (strip_ssl c) r) cs \<noteq> []"
    using c' by (auto simp: filter_empty_conv)
  then have "length (filter (\<lambda>c. config_matches (strip_ssl c) r) cs) \<ge> 1"
    by (cases "filter (\<lambda>c. config_matches (strip_ssl c) r) cs") simp_all
  moreover have "length (filter (\<lambda>c. config_matches (strip_ssl c) r) (c # cs)) \<le> 1"
    using u r by (simp add: unambiguous_def)
  ultimately show False using m by simp
qed

lemma plan_configs_decisions:
  assumes "\<forall>c\<in>set cs. has_ssl_keys c" and "unambiguous remote cs" and "distinct remote"
    and "to_delete p = filter (\<lambda>r. r \<notin> set (map snd (to_update p))) remote"
    and "\<forall>r\<in>set (map snd (to_update p)). \<forall>c\<in>set cs. \<not> config_matches (strip_ssl c) r"
  shows "\<exists>p'. plan_configs cs p = Inr p' \<and>
           to_create p' = to_create p @ creates_of remote cs \<and>
           to_update p' = to_update p @ updates_of remote cs"
  using assms
proof (induction cs arbitrary: p)
  case Nil
  then show ?case by (simp add: creates_of_def updates_of_def)
next
  case (Cons c cs)
  have keys: "has_ssl_keys c" "\<forall>c\<in>set cs. has_ssl_keys c" using Cons.prems(1) by simp_all
  have u: "unambiguous remote cs" by (rule unambiguous_tail[OF Cons.prems(2)])
  have "\<forall>x\<in>set remote. config_matches (strip_ssl c) x \<longrightarrow> x \<notin> set (map snd (to_update p))"
    using Cons.prems(5) by auto
  then have f: "find (config_matches (strip_ssl c)) (to_delete p) = match_in remote c"
    unfolding Cons.prems(4) match_in_def by (rule find_filter_same)
  have chk: "check_config_exists (to_delete p) c =
     (case match_in remote c of Some r \<Rightarrow> Inr (True, Some r) | None \<Rightarrow> Inr (False, None))"
    using keys(1) unfolding check_config_exists_strip f by (simp add: has_ssl_keys_def)
  show ?case
  proof (cases "match_in remote c")
    case None
    define p1 where "p1 = p\<lparr>to_create := to_create p @ [(c, None)]\<rparr>"
    have st: "plan_configs (c # cs) p = plan_configs cs p1"
      by (simp add: chk None p1_def)
    have 4: "to_delete p1 = filter (\<lambda>r. r \<notin> set (map snd (to_update p1))) remote"
      using Cons.prems(4) by (simp add: p1_def)
    have 5: "\<forall>r\<in>set (map snd (to_update p1)). \<forall>c\<in>set cs. \<not> config_matches (strip_ssl c) r"
      using Cons.prems(5) by (simp add: p1_def)
    from Cons.IH[OF keys(2) u Cons.prems(3) 4 5] obtain p' where
      "plan_configs cs p1 = Inr p'" "to_create p' = to_create p1 @ creates_of remote cs"
      "to_update p' = to_update p1 @ updates_of remote cs" by blast
    then show ?thesis
      unfolding st by (simp add: p1_def creates_of_def updates_of_def None)
  next
    case (Some r)
    then have rm: "r \<in> set remote" "config_matches (strip_ssl c) r"
      by (auto simp: match_in_def find_Some_iff)
    show ?thesis
    proof (cases "config_get_truthy ''recreate'' c")
      case True
      define p1 where "p1 = p\<lparr>to_create := to_create p @ [(c, Some r)]\<rparr>"
      have st: "plan_configs (c # cs) p = plan_configs cs p1"
        by (simp add: chk Some True p1_def)
      have 4: "to_delete p1 = filter (\<lambda>r. r \<notin> set (map snd (to_update p1))) remote"
        using Cons.prems(4) by (simp add: p1_def)
      have 5: "\<forall>r\<in>set (map snd (to_update p1)). \<forall>c\<in>set cs. \<not> config_matches (strip_ssl c) r"
        using Cons.prems(5) by (simp add: p1_def)
      from Cons.IH[OF keys(2) u Cons.prems(3) 4 5] obtain p' where
        "plan_configs cs p1 = Inr p'" "to_create p' = to_create p1 @ creates_of remote cs"
        "to_update p' = to_update p1 @ updates_of remote cs" by blast
      then show ?thesis
        unfolding st by (simp add: p1_def creates_of_def updates_of_def Some True)
    next
      case False
      define p1 where "p1 = p\<lparr>to_update := to_update p @ [(c, r)], to_delete := remove1 r (to_delete p)\<rparr>"
      have st: "plan_configs (c # cs) p = plan_configs cs p1"
        by (simp add: chk Some False p1_def)
      have 4: "to_delete p1 = filter (\<lambda>x. x \<notin> set (map snd (to_update p1))) remote"
        unfolding p1_def using Cons.prems(4) remove1_filter_distinct[OF Cons.prems(3)]
        by (auto intro: filter_cong)
      have 5: "\<forall>x\<in>set (map snd (to_update p1)). \<forall>c'\<in>set cs. \<not> config_matches (strip_ssl c') x"
        using Cons.prems(5) unambiguous_head[OF Cons.prems(2) rm]
        by (auto simp: p1_def)
      from Cons.IH[OF keys(2) u Cons.prems(3) 4 5] obtain p' where
        "plan_configs cs p1 = Inr p'" "to_create p' = to_create p1 @ creates_of remote cs"
        "to_update p' = to_update p1 @ updates_of remote cs" by blast
      then show ?thesis
        unfolding st by (simp add: p1_def creates_of_def updates_of_def Some False)
    qed
  qed
qed

lemma unambiguous_mset:
  "mset cs' = mset cs \<Longrightarrow> unambiguous remote cs \<Longrightarrow> unambiguous remote cs'"
proof -
  assume p: "mset cs' = mset cs" and u: "unambiguous remote cs"
  have "length (filter P cs') = length (filter P cs)" for P :: "config \<Rightarrow> bool"
  proof -
    have "mset (filter P cs') = mset (filter P cs)" using p by simp
    then show ?thesis by (rule mset_eq_length)
  qed
  then show ?thesis using u by (simp add: unambiguous_def)
qed

lemma plan_configs_permutation:
  assumes p: "mset cs' = mset cs" and keys: "\<forall>c\<in>set cs. has_ssl_keys c"
    and u: "unambiguous remote cs" and d: "distinct remote"
  shows "\<exists>pl pl'. plan_configs cs (init_plan remote) = Inr pl \<and>
           plan_configs cs' (init_plan remote) = Inr pl' \<and>
           mset (to_create pl') = mset (to_create pl) \<and>
           mset (to_update pl') = mset (to_update pl) \<and>
           to_delete pl' = to_delete pl"
proof -
  have s: "set cs' = set cs" using p by (rule mset_eq_setD)
  have keys': "\<forall>c\<in>set cs'. has_ssl_keys c" using keys s by simp
  have u': "unambiguous remote cs'" by (rule unambiguous_mset[OF p u])
  have i4: "to_delete (init_plan remote) =
            filter (\<lambda>r. r \<notin> set (map snd (to_update (init_plan remote)))) remote"
    by (simp add: init_plan_def)
  have i5: "\<forall>r\<in>set (map snd (to_update (init_plan remote))). \<forall>c\<in>set xs. \<not> config_matches (strip_ssl c) r"
    for xs :: "config list"
    by (simp add: init_plan_def)
  from plan_configs_decisions[OF keys u d i4 i5] obtain pl where
    pl: "plan_configs cs (init_plan remote) = Inr pl"
        "to_create pl = creates_of remote cs" "to_update pl = updates_of remote cs"
    by (auto simp: init_plan_def)
  from plan_configs_decisions[OF keys' u' d i4 i5] obtain pl' where
    pl': "plan_configs cs' (init_plan remote) = Inr pl'"
        "to_create pl' = creates_of remote cs'" "to_update pl' = updates_of remote cs'"
    by (auto simp: init_plan_def)
  have c: "mset (to_create pl') = mset (to_create pl)"
    unfolding pl pl' creates_of_def by (simp add: mset_concat_map p)
  have up: "mset (to_update pl') = mset (to_update pl)"
    unfolding pl pl' updates_of_def by (simp add: mset_concat_map p)
  have su: "set (to_update pl') = set (to_update pl)" using up by (rule mset_eq_setD)
  have dl: "to_delete pl = filter (\<lambda>r. r \<notin> set (map snd (to_update pl))) remote"
    by (rule plan_configs_deletes[OF pl(1) d i4])
  have dl': "to_delete pl' = filter (\<lambda>r. r \<notin> set (map snd (to_update pl'))) remote"
    by (rule plan_configs_deletes[OF pl'(1) d i4])
  have "to_delete pl' = to_delete pl" unfolding dl dl' by (simp add: su)
  with pl(1) pl'(1) c up show ?thesis by blast
qed

text \<open>
  Two desired pools of one type and different counts: the pool that is resized, and the
  pool that is created, depend on which of the two comes first.
\<close>

lemma same_type_order_matters:
  "ps_trace (update_pools
     [\<lparr>spec_type = ''A'', spec_count = 3, spec_autoscaler = None :: nat option,
       spec_taints = None, spec_labels = None\<rparr>,
      \<lparr>spec_type = ''A'', spec_count = 5, spec_autoscaler = None,
       spec_taints = None, spec_labels = None\<rparr>]
     [\<lparr>pool_id = 1, pool_type = ''A'', pool_count = 4, pool_autoscaler = 0, pool_taints = 0,
       pool_labels = 0\<rparr>])
   = [Resized 1 4 3,
      PoolSave \<lparr>pool_id = 1, pool_type = ''A'', pool_count = 3, pool_autoscaler = 0,
                pool_taints = 0, pool_labels = 0\<rparr>,
      CreatedPool 5 ''A'', NodePoolCreate ''A'' 5 None] \<and>
   ps_trace (update_pools
     [\<lparr>spec_type = ''A'', spec_count = 5, spec_autoscaler = None :: nat option,
       spec_taints = None, spec_labels = None\<rparr>,
      \<lparr>spec_type = ''A'', spec_count = 3, spec_autoscaler = None,
       spec_taints = None, spec_labels = None\<rparr>]
     [\<lparr>pool_id = 1, pool_type = ''A'', pool_count = 4, pool_autoscaler = 0, pool_taints = 0,
       pool_labels = 0\<rparr>])
   = [Resized 1 4 5,
      PoolSave \<lparr>pool_id = 1, pool_type = ''A'', pool_count = 5, pool_autoscaler = 0,
                pool_taints = 0, pool_labels = 0\<rparr>,
      CreatedPool 3 ''A'', NodePoolCreate ''A'' 3 None]"
  by code_simp

text \<open>
  Claim C5.  The order of the desired entries does not decide which remote resource each
  of them is bound to, provided the entries have distinct matching keys.

  For the node pools of \<open>_update_cluster\<close> the key is the pool type: when the desired
  pools have pairwise distinct types, permuting them leaves the ledger entries and the
  remote calls the same up to their order.  For the configs of \<open>_handle_configs\<close> the key
  is what \<open>_check_config_exists\<close> compares: when no remote config passes the test of two
  desired configs, permuting the desired configs leaves the configs to create, the
  pairs of desired and remote config to update, and the remote configs to delete the
  same (the first two up to their order).
\<close>

theorem matching_order_independent:
  assumes perm_pools: "mset ps' = mset ps"
    and pool_keys: "distinct (map spec_type ps)"
    and perm_configs: "mset cs' = mset cs"
    and config_keys: "unambiguous remote cs"
    and well_formed: "\<forall>c\<in>set cs. has_ssl_keys c"
    and remote_set: "distinct remote"
  shows "mset (ps_trace (update_pools ps' R)) = mset (ps_trace (update_pools ps R)) \<and>
         (\<exists>pl pl'. plan_configs cs (init_plan remote) = Inr pl \<and>
            plan_configs cs' (init_plan remote) = Inr pl' \<and>
            mset (to_create pl') = mset (to_create pl) \<and>
            mset (to_update pl') = mset (to_update pl) \<and>
            to_delete pl' = to_delete pl)"
  using update_pools_permutation[OF perm_pools pool_keys]
        plan_configs_permutation[OF perm_configs well_formed config_keys remote_set]
  by blast

text \<open>
  Two desired pools of types A and B against remote pools of types B, A and C, and three
  desired configs against two remote configs, each in two orders.
\<close>

theorem matching_order_independent_witness:
  "distinct (map spec_type
     [\<lparr>spec_type = ''A'', spec_count = 3, spec_autoscaler = None :: nat option,
       spec_taints = None, spec_labels = None\<rparr>,
      \<lparr>spec_type = ''B'', spec_count = 2, spec_autoscaler = None :: nat option,
       spec_taints = None, spec_labels = None\<rparr>]) \<and>
   unambiguous
     [\<lparr>config_id = 5, raw_json = [(''id'', JInt 5), (''port'', JInt 443)]\<rparr>,
      \<lparr>config_id = 6, raw_json = [(''id'', JInt 6), (''port'', JInt 8080)]\<rparr>]
     [[(''port'', JInt 443), (''ssl_cert'', JStr ''CERT''), (''ssl_key'', JStr ''KEY'')],
      [(''port'', JInt 80), (''ssl_cert'', JNull), (''ssl_key'', JNull)],
      [(''port'', JInt 8443), (''ssl_cert'', JNull), (''ssl_key'', JNull)]] \<and>
   ps_trace (update_pools
     [\<lparr>spec_type = ''A'', spec_count = 3, spec_autoscaler = None :: nat option,
       spec_taints = None, spec_labels = None\<rparr>,
      \<lparr>spec_type = ''B'', spec_count = 2, spec_autoscaler = None :: nat option,
       spec_taints = None, spec_labels = None\<rparr>]
     [\<lparr>pool_id = 1, pool_type = ''B'', pool_count = 1, pool_autoscaler = 0 :: nat,
       pool_taints = 0, pool_labels = 0\<rparr>,
      \<lparr>pool_id = 2, pool_type = ''A'', pool_count = 4, pool_autoscaler = 0 :: nat,
       pool_taints = 0, pool_labels = 0\<rparr>,
      \<lparr>pool_id = 3, pool_type = ''C'', pool_count = 1, pool_autoscaler = 0 :: nat,
       pool_taints = 0, pool_labels = 0\<rparr>])
   = [Resized 2 4 3, PoolSave \<lparr>pool_id = 2, pool_type = ''A'', pool_count = 3, pool_autoscaler = 0 :: nat,
       pool_taints = 0, pool_labels = 0\<rparr>,
      Resized 1 1 2, PoolSave \<lparr>pool_id = 1, pool_type = ''B'', pool_count = 2, pool_autoscaler = 0 :: nat,
       pool_taints = 0, pool_labels = 0\<rparr>,
      DeletedPool 3, PoolDelete 3] \<and>
   ps_trace (update_pools
     [\<lparr>spec_type = ''B'', spec_count = 2, spec_autoscaler = None :: nat option,
       spec_taints = None, spec_labels = None\<rparr>,
      \<lparr>spec_type = ''A'', spec_count = 3, spec_autoscaler = None :: nat option,
       spec_taints = None, spec_labels = None\<rparr>]
     [\<lparr>pool_id = 1, pool_type = ''B'', pool_count = 1, pool_autoscaler = 0 :: nat,
       pool_taints = 0, pool_labels = 0\<rparr>,
      \<lparr>pool_id = 2, pool_type = ''A'', pool_count = 4, pool_autoscaler = 0 :: nat,
       pool_taints = 0, pool_labels = 0\<rparr>,
      \<lparr>pool_id = 3, pool_type = ''C'', pool_count = 1, pool_autoscaler = 0 :: nat,
       pool_taints = 0, pool_labels = 0\<rparr>])
   = [Resized 1 1 2, PoolSave \<lparr>pool_id = 1, pool_type = ''B'', pool_count = 2, pool_autoscaler = 0 :: nat,
       pool_taints = 0, pool_labels = 0\<rparr>,
      Resized 2 4 3, PoolSave \<lparr>pool_id = 2, pool_type = ''A'', pool_count = 3, pool_autoscaler = 0 :: nat,
       pool_taints = 0, pool_labels = 0\<rparr>,
      DeletedPool 3, PoolDelete 3] \<and>
   mset (ps_trace (update_pools
     [\<lparr>spec_type = ''B'', spec_count = 2, spec_autoscaler = None :: nat option,
       spec_taints = None, spec_labels = None\<rparr>,
      \<lparr>spec_type = ''A'', spec_count = 3, spec_autoscaler = None :: nat option,
       spec_taints = None, spec_labels = None\<rparr>]
     [\<lparr>pool_id = 1, pool_type = ''B'', pool_count = 1, pool_autoscaler = 0 :: nat,
       pool_taints = 0, pool_labels = 0\<rparr>,
      \<lparr>pool_id = 2, pool_type = ''A'', pool_count = 4, pool_autoscaler = 0 :: nat,
       pool_taints = 0, pool_labels = 0\<rparr>,
      \<lparr>pool_id = 3, pool_type = ''C'', pool_count = 1, pool_autoscaler = 0 :: nat,
       pool_taints = 0, pool_labels = 0\<rparr>]))
   = mset (ps_trace (update_pools
     [\<lparr>spec_type = ''A'', spec_count = 3, spec_autoscaler = None :: nat option,
       spec_taints = None, spec_labels = None\<rparr>,
      \<lparr>spec_type = ''B'', spec_count = 2, spec_autoscaler = None :: nat option,
       spec_taints = None, spec_labels = None\<rparr>]
     [\<lparr>pool_id = 1, pool_type = ''B'', pool_count = 1, pool_autoscaler = 0 :: nat,
       pool_taints = 0, pool_labels = 0\<rparr>,
      \<lparr>pool_id = 2, pool_type = ''A'', pool_count = 4, pool_autoscaler = 0 :: nat,
       pool_taints = 0, pool_labels = 0\<rparr>,
      \<lparr>pool_id = 3, pool_type = ''C'', pool_count = 1, pool_autoscaler = 0 :: nat,
       pool_taints = 0, pool_labels = 0\<rparr>])) \<and>
   (\<exists>pl pl'.
      plan_configs
        [[(''port'', JInt 443), (''ssl_cert'', JStr ''CERT''), (''ssl_key'', JStr ''KEY'')],
      [(''port'', JInt 80), (''ssl_cert'', JNull), (''ssl_key'', JNull)],
      [(''port'', JInt 8443), (''ssl_cert'', JNull), (''ssl_key'', JNull)]]
        (init_plan [\<lparr>config_id = 5, raw_json = [(''id'', JInt 5), (''port'', JInt 443)]\<rparr>,
      \<lparr>config_id = 6, raw_json = [(''id'', JInt 6), (''port'', JInt 8080)]\<rparr>]) = Inr pl \<and>
      plan_configs
        [[(''port'', JInt 8443), (''ssl_cert'', JNull), (''ssl_key'', JNull)],
      [(''port'', JInt 80), (''ssl_cert'', JNull), (''ssl_key'', JNull)],
      [(''port'', JInt 443), (''ssl_cert'', JStr ''CERT''), (''ssl_key'', JStr ''KEY'')]]
        (init_plan [\<lparr>config_id = 5, raw_json = [(''id'', JInt 5), (''port'', JInt 443)]\<rparr>,
      \<lparr>config_id = 6, raw_json = [(''id'', JInt 6), (''port'', JInt 8080)]\<rparr>]) = Inr pl' \<and>
      mset (to_create pl') = mset (to_create pl) \<and>
      mset (to_update pl') = mset (to_update pl) \<and>
      to_delete pl' = to_delete pl \<and>
      to_create pl = [([(''port'', JInt 80), (''ssl_cert'', JNull), (''ssl_key'', JNull)], None), ([(''port'', JInt 8443), (''ssl_cert'', JNull), (''ssl_key'', JNull)], None)] \<and>
      to_create pl' = [([(''port'', JInt 8443), (''ssl_cert'', JNull), (''ssl_key'', JNull)], None), ([(''port'', JInt 80), (''ssl_cert'', JNull), (''ssl_key'', JNull)], None)] \<and>
      to_update pl = [([(''port'', JInt 443), (''ssl_cert'', JStr ''CERT''), (''ssl_key'', JStr ''KEY'')], \<lparr>config_id = 5, raw_json = [(''id'', JInt 5), (''port'', JInt 443)]\<rparr>)] \<and>
      to_delete pl = [\<lparr>config_id = 6, raw_json = [(''id'', JInt 6), (''port'', JInt 8080)]\<rparr>])"
proof -
  define ps :: "nat pool_spec list" where "ps =
     [\<lparr>spec_type = ''A'', spec_count = 3, spec_autoscaler = None :: nat option,
       spec_taints = None, spec_labels = None\<rparr>,
      \<lparr>spec_type = ''B'', spec_count = 2, spec_autoscaler = None :: nat option,
       spec_taints = None, spec_labels = None\<rparr>]"
  define ps' :: "nat pool_spec list" where "ps' =
     [\<lparr>spec_type = ''B'', spec_count = 2, spec_autoscaler = None :: nat option,
       spec_taints = None, spec_labels = None\<rparr>,
      \<lparr>spec_type = ''A'', spec_count = 3, spec_autoscaler = None :: nat option,
       spec_taints = None, spec_labels = None\<rparr>]"
  define R :: "nat pool list" where "R =
     [\<lparr>pool_id = 1, pool_type = ''B'', pool_count = 1, pool_autoscaler = 0 :: nat,
       pool_taints = 0, pool_labels = 0\<rparr>,
      \<lparr>pool_id = 2, pool_type = ''A'', pool_count = 4, pool_autoscaler = 0 :: nat,
       pool_taints = 0, pool_labels = 0\<rparr>,
      \<lparr>pool_id = 3, pool_type = ''C'', pool_count = 1, pool_autoscaler = 0 :: nat,
       pool_taints = 0, pool_labels = 0\<rparr>]"
  define cs :: "config list" where "cs =
     [[(''port'', JInt 443), (''ssl_cert'', JStr ''CERT''), (''ssl_key'', JStr ''KEY'')],
      [(''port'', JInt 80), (''ssl_cert'', JNull), (''ssl_key'', JNull)],
      [(''port'', JInt 8443), (''ssl_cert'', JNull), (''ssl_key'', JNull)]]"
  define cs' :: "config list" where "cs' =
     [[(''port'', JInt 8443), (''ssl_cert'', JNull), (''ssl_key'', JNull)],
      [(''port'', JInt 80), (''ssl_cert'', JNull), (''ssl_key'', JNull)],
      [(''port'', JInt 443), (''ssl_cert'', JStr ''CERT''), (''ssl_key'', JStr ''KEY'')]]"
  define remote :: "remote_config list" where "remote =
     [\<lparr>config_id = 5, raw_json = [(''id'', JInt 5), (''port'', JInt 443)]\<rparr>,
      \<lparr>config_id = 6, raw_json = [(''id'', JInt 6), (''port'', JInt 8080)]\<rparr>]"
  have h1: "mset ps' = mset ps"
    unfolding ps_def ps'_def by simp
  have h2: "distinct (map spec_type ps)"
    unfolding ps_def by simp
  have h3: "mset cs' = mset cs"
    unfolding cs_def cs'_def by simp
  have h4: "unambiguous remote cs"
    unfolding cs_def remote_def by code_simp
  have h5: "\<forall>c\<in>set cs. has_ssl_keys c"
    unfolding cs_def by code_simp
  have h6: "distinct remote"
    unfolding remote_def by simp
  have t1: "ps_trace (update_pools ps R) =
     [Resized 2 4 3, PoolSave \<lparr>pool_id = 2, pool_type = ''A'', pool_count = 3, pool_autoscaler = 0 :: nat,
       pool_taints = 0, pool_labels = 0\<rparr>,
      Resized 1 1 2, PoolSave \<lparr>pool_id = 1, pool_type = ''B'', pool_count = 2, pool_autoscaler = 0 :: nat,
       pool_taints = 0, pool_labels = 0\<rparr>,
      DeletedPool 3, PoolDelete 3]"
    unfolding ps_def R_def by code_simp
  have t2: "ps_trace (update_pools ps' R) =
     [Resized 1 1 2, PoolSave \<lparr>pool_id = 1, pool_type = ''B'', pool_count = 2, pool_autoscaler = 0 :: nat,
       pool_taints = 0, pool_labels = 0\<rparr>,
      Resized 2 4 3, PoolSave \<lparr>pool_id = 2, pool_type = ''A'', pool_count = 3, pool_autoscaler = 0 :: nat,
       pool_taints = 0, pool_labels = 0\<rparr>,
      DeletedPool 3, PoolDelete 3]"
    unfolding ps'_def R_def by code_simp
  have e1: "plan_configs cs (init_plan remote) =
     Inr \<lparr>to_create = [([(''port'', JInt 80), (''ssl_cert'', JNull), (''ssl_key'', JNull)], None), ([(''port'', JInt 8443), (''ssl_cert'', JNull), (''ssl_key'', JNull)], None)],
          to_update = [([(''port'', JInt 443), (''ssl_cert'', JStr ''CERT''), (''ssl_key'', JStr ''KEY'')], \<lparr>config_id = 5, raw_json = [(''id'', JInt 5), (''port'', JInt 443)]\<rparr>)],
          to_delete = [\<lparr>config_id = 6, raw_json = [(''id'', JInt 6), (''port'', JInt 8080)]\<rparr>]\<rparr>"
    unfolding cs_def remote_def by code_simp
  have e2: "plan_configs cs' (init_plan remote) =
     Inr \<lparr>to_create = [([(''port'', JInt 8443), (''ssl_cert'', JNull), (''ssl_key'', JNull)], None), ([(''port'', JInt 80), (''ssl_cert'', JNull), (''ssl_key'', JNull)], None)],
          to_update = [([(''port'', JInt 443), (''ssl_cert'', JStr ''CERT''), (''ssl_key'', JStr ''KEY'')], \<lparr>config_id = 5, raw_json = [(''id'', JInt 5), (''port'', JInt 443)]\<rparr>)],
          to_delete = [\<lparr>config_id = 6, raw_json = [(''id'', JInt 6), (''port'', JInt 8080)]\<rparr>]\<rparr>"
    unfolding cs'_def remote_def by code_simp
  from matching_order_independent[OF h1 h2 h3 h4 h5 h6, of R]
  obtain pl pl' where m: "mset (ps_trace (update_pools ps' R)) = mset (ps_trace (update_pools ps R))"
    and pl: "plan_configs cs (init_plan remote) = Inr pl"
    and pl': "plan_configs cs' (init_plan remote) = Inr pl'"
    and eqs: "mset (to_create pl') = mset (to_create pl)"
             "mset (to_update pl') = mset (to_update pl)"
             "to_delete pl' = to_delete pl"
    by blast
  have v: "to_create pl = [([(''port'', JInt 80), (''ssl_cert'', JNull), (''ssl_key'', JNull)], None), ([(''port'', JInt 8443), (''ssl_cert'', JNull), (''ssl_key'', JNull)], None)]"
          "to_create pl' = [([(''port'', JInt 8443), (''ssl_cert'', JNull), (''ssl_key'', JNull)], None), ([(''port'', JInt 80), (''ssl_cert'', JNull), (''ssl_key'', JNull)], None)]"
          "to_update pl = [([(''port'', JInt 443), (''ssl_cert'', JStr ''CERT''), (''ssl_key'', JStr ''KEY'')], \<lparr>config_id = 5, raw_json = [(''id'', JInt 5), (''port'', JInt 443)]\<rparr>)]"
          "to_delete pl = [\<lparr>config_id = 6, raw_json = [(''id'', JInt 6), (''port'', JInt 8080)]\<rparr>]"
    using pl pl' unfolding e1 e2 by auto
  have ex: "\<exists>pl pl'.
      plan_configs cs (init_plan remote) = Inr pl \<and>
      plan_configs cs' (init_plan remote) = Inr pl' \<and>
      mset (to_create pl') = mset (to_create pl) \<and>
      mset (to_update pl') = mset (to_update pl) \<and>
      to_delete pl' = to_delete pl \<and>
      to_create pl = [([(''port'', JInt 80), (''ssl_cert'', JNull), (''ssl_key'', JNull)], None), ([(''port'', JInt 8443), (''ssl_cert'', JNull), (''ssl_key'', JNull)], None)] \<and>
      to_create pl' = [([(''port'', JInt 8443), (''ssl_cert'', JNull), (''ssl_key'', JNull)], None), ([(''port'', JInt 80), (''ssl_cert'', JNull), (''ssl_key'', JNull)], None)] \<and>
      to_update pl = [([(''port'', JInt 443), (''ssl_cert'', JStr ''CERT''), (''ssl_key'', JStr ''KEY'')], \<lparr>config_id = 5, raw_json = [(''id'', JInt 5), (''port'', JInt 443)]\<rparr>)] \<and>
      to_delete pl = [\<lparr>config_id = 6, raw_json = [(''id'', JInt 6), (''port'', JInt 8080)]\<rparr>]"
    using pl pl' eqs v by blast
  show ?thesis
    using h2 h4 t1 t2 m ex unfolding ps_def ps'_def R_def cs_def cs'_def remote_def
    by blast
qed

section \<open>Theorems: the poller\<close>

lemma poll_error_now:
  "cond now = Inl e \<Longrightarrow> poll_condition cond step budget now = Some (Inl e)"
  by (subst poll_condition.simps) simp

lemma poll_false_step:
  "cond now = Inr False \<Longrightarrow> 0 < budget \<Longrightarrow>
   poll_condition cond step budget now = poll_condition cond step (budget - int step) (now + step)"
  by (subst poll_condition.simps) simp

lemma poll_error_later:
  "\<forall>j<k. cond (now + j * step) = Inr False \<Longrightarrow>
   cond (now + k * step) = Inl e \<Longrightarrow>
   int k * int step < budget + int step \<Longrightarrow>
   poll_condition cond step budget now = Some (Inl e)"
proof (induction k arbitrary: now budget)
  case 0
  then show ?case by (simp add: poll_error_now)
next
  case (Suc k)
  have f: "cond now = Inr False" using Suc.prems(1) by force
  have nn: "0 \<le> int k * int step" by simp
  have "int k * int step < budget" using Suc.prems(3) by (simp add: algebra_simps)
  with nn have b: "0 < budget" by linarith
  have 1: "\<forall>j<k. cond (now + step + j * step) = Inr False"
  proof (intro allI impI)
    fix j assume "j < k"
    then have "Suc j < Suc k" by simp
    with Suc.prems(1) have "cond (now + Suc j * step) = Inr False" by blast
    then show "cond (now + step + j * step) = Inr False" by (simp add: algebra_simps)
  qed
  have 2: "cond (now + step + k * step) = Inl e" using Suc.prems(2) by (simp add: algebra_simps)
  have 3: "int k * int step < budget - int step + int step" using Suc.prems(3) by (simp add: algebra_simps)
  have st: "poll_condition cond step budget now =
            poll_condition cond step (budget - int step) (now + step)"
    using f b by (rule poll_false_step)
  show ?case
    unfolding st by (rule Suc.IH[OF 1 2 3])
qed

lemma poll_timeout:
  "0 < step \<Longrightarrow> cond now = Inr False \<Longrightarrow>
   \<forall>t. now < t \<and> int t < int now + budget + int step \<longrightarrow> cond t = Inr False \<Longrightarrow>
   poll_condition cond step budget now = Some (Inl TimeoutError)"
proof (induction "nat budget" arbitrary: now budget rule: less_induct)
  case less
  show ?case
  proof (cases "budget \<le> 0")
    case True
    then show ?thesis using less.prems(2) by (subst poll_condition.simps) simp
  next
    case False
    then have b: "0 < budget" by simp
    have lt: "nat (budget - int step) < nat budget" using b less.prems(1) by linarith
    have f2: "cond (now + step) = Inr False"
      using less.prems(1,3) b by simp
    have r: "\<forall>t. now + step < t \<and> int t < int (now + step) + (budget - int step) + int step \<longrightarrow> cond t = Inr False"
      using less.prems(3) by simp
    have st: "poll_condition cond step budget now =
              poll_condition cond step (budget - int step) (now + step)"
      using less.prems(2) b by (rule poll_false_step)
    show ?thesis
      unfolding st
      by (rule less.hyps[OF lt less.prems(1) f2 r])
  qed
qed


lemma condition_false_iff: "condition read t = Inr False \<longleftrightarrow> read t = Inl (ApiError 503)"
  by (auto simp: condition_def split: sum.splits error.splits)

lemma condition_error_iff:
  "condition read t = Inl e \<longleftrightarrow> read t = Inl e \<and> e \<noteq> ApiError 503"
  by (auto simp: condition_def split: sum.splits error.splits)

text \<open>
  Claim C8.  The \<open>condition\<close> closures of \<open>_populate_kubeconfig_poll\<close> and
  \<open>_populate_dashboard_url_poll\<close> return \<open>False\<close> exactly when the read raises an
  \<open>ApiError\<close> of status 503.  When the read raises anything else at the \<open>k\<close>-th evaluation
  of the predicate (after \<open>k\<close> answers 503, the budget not yet used up), the poll ends at
  that evaluation with this very error: it is not retried and not turned into a timeout.
\<close>

theorem predicate_errors_propagate:
  assumes not_ready: "\<forall>j<k. read (now + j * step) = Inl (ApiError 503)"
    and raised: "read (now + k * step) = Inl e"
    and other: "e \<noteq> ApiError 503"
    and in_budget: "int k * int step < budget + int step"
  shows "poll_condition (condition read) step budget now = Some (Inl e) \<and>
         (step = 4 \<and> budget = seconds_remaining ctx now \<longrightarrow>
            populate_kubeconfig_poll ctx read now results = Some (Inl e)) \<and>
         (step = 1 \<and> budget = seconds_remaining ctx now \<longrightarrow>
            populate_dashboard_url_poll ctx read now results = Some (Inl e)) \<and>
         (\<forall>t. (condition read t = Inr False) = (read t = Inl (ApiError 503)))"
proof -
  have f: "\<forall>j<k. condition read (now + j * step) = Inr False"
    using not_ready by (simp add: condition_false_iff)
  have r: "condition read (now + k * step) = Inl e"
    using raised other by (simp add: condition_error_iff)
  have p: "poll_condition (condition read) step budget now = Some (Inl e)"
    by (rule poll_error_later[OF f r in_budget])
  show ?thesis
    using p by (auto simp: populate_kubeconfig_poll_def populate_dashboard_url_poll_def
                  condition_false_iff)
qed

theorem predicate_errors_propagate_witness:
  "populate_kubeconfig_poll \<lparr>start_time = 0, timeout_seconds = 120\<rparr>
     (\<lambda>t. if t < 8 then Inl (ApiError 503) else Inl (ApiError 500)) 0
     \<lparr>kubeconfig = None, dashboard_url = None\<rparr> = Some (Inl (ApiError 500)) \<and>
   populate_dashboard_url_poll \<lparr>start_time = 0, timeout_seconds = 120\<rparr>
     (\<lambda>t. Inl (OtherError ''connection reset'')) 0
     \<lparr>kubeconfig = None, dashboard_url = None\<rparr> = Some (Inl (OtherError ''connection reset''))"
proof -
  have a: "populate_kubeconfig_poll \<lparr>start_time = 0, timeout_seconds = 120\<rparr>
     (\<lambda>t. if t < 8 then Inl (ApiError 503) else Inl (ApiError 500)) 0
     \<lparr>kubeconfig = None, dashboard_url = None\<rparr> = Some (Inl (ApiError 500))"
    using predicate_errors_propagate
      [of 2 "\<lambda>t. if t < 8 then Inl (ApiError 503) else Inl (ApiError 500)" 0 4 "ApiError 500" 120
          "\<lparr>start_time = 0, timeout_seconds = 120\<rparr>" "\<lparr>kubeconfig = None, dashboard_url = None\<rparr>"]
    by (simp add: seconds_remaining_def less_Suc_eq numeral_2_eq_2)
  have b: "populate_dashboard_url_poll \<lparr>start_time = 0, timeout_seconds = 120\<rparr>
     (\<lambda>t. Inl (OtherError ''connection reset'')) 0
     \<lparr>kubeconfig = None, dashboard_url = None\<rparr> = Some (Inl (OtherError ''connection reset''))"
    using predicate_errors_propagate
      [of 0 "\<lambda>t. Inl (OtherError ''connection reset'')" 0 1 "OtherError ''connection reset''" 120
          "\<lparr>start_time = 0, timeout_seconds = 120\<rparr>" "\<lparr>kubeconfig = None, dashboard_url = None\<rparr>"]
    by (simp add: seconds_remaining_def)
  from a b show ?thesis by simp
qed

subsection \<open>The outcome of a poll\<close>

lemma poll_true_now:
  "cond now = Inr True \<Longrightarrow> poll_condition cond step budget now = Some (Inr now)"
  by (subst poll_condition.simps) simp

lemma poll_false_out:
  "cond now = Inr False \<Longrightarrow> budget \<le> 0 \<Longrightarrow>
   poll_condition cond step budget now = Some (Inl TimeoutError)"
  by (subst poll_condition.simps) simp

lemma poll_exact:
  "\<forall>j<k. cond (now + j * step) = Inr False \<Longrightarrow> cond (now + k * step) = Inr True \<Longrightarrow>
   poll_condition cond step budget now =
     Some (if k = 0 \<or> (int k - 1) * int step < budget then Inr (now + k * step)
           else Inl TimeoutError)"
proof (induction k arbitrary: now budget)
  case 0
  then show ?case by (simp add: poll_true_now)
next
  case (Suc k)
  have f: "cond now = Inr False" using Suc.prems(1) by force
  show ?case
  proof (cases "budget \<le> 0")
    case True
    have "0 \<le> int k * int step" by simp
    with True have "\<not> int k * int step < budget" by linarith
    moreover have "poll_condition cond step budget now = Some (Inl TimeoutError)"
      using f True by (rule poll_false_out)
    ultimately show ?thesis by simp
  next
    case False
    then have b: "0 < budget" by simp
    have 1: "\<forall>j<k. cond (now + step + j * step) = Inr False"
    proof (intro allI impI)
      fix j assume "j < k"
      then have "Suc j < Suc k" by simp
      with Suc.prems(1) have "cond (now + Suc j * step) = Inr False" by blast
      then show "cond (now + step + j * step) = Inr False" by (simp add: algebra_simps)
    qed
    have 2: "cond (now + step + k * step) = Inr True"
      using Suc.prems(2) by (simp add: algebra_simps)
    have st: "poll_condition cond step budget now =
              poll_condition cond step (budget - int step) (now + step)"
      using f b by (rule poll_false_step)
    have e: "(k = 0 \<or> (int k - 1) * int step < budget - int step) = (int k * int step < budget)"
      using b by (cases k) (auto simp: algebra_simps)
    show ?thesis
      unfolding st Suc.IH[OF 1 2] e by (simp add: algebra_simps)
  qed
qed

lemma wait_exact:
  assumes "needs cond t0 step k"
  shows "poll_condition cond step (seconds_remaining ctx t0) t0 =
           Some (if in_budget ctx t0 step k then Inr (t0 + k * step) else Inl TimeoutError)"
proof -
  have 1: "\<forall>j<k. cond (t0 + j * step) = Inr False"
    using assms by (simp add: needs_def list_all_iff)
  have 2: "cond (t0 + k * step) = Inr True" using assms by (simp add: needs_def)
  have e: "(k = 0 \<or> (int k - 1) * int step < seconds_remaining ctx t0) = in_budget ctx t0 step k"
    by (auto simp: in_budget_def seconds_remaining_def deadline_def)
  show ?thesis unfolding poll_exact[OF 1 2] e ..
qed

lemma populate_polls_exact:
  assumes a: "needs (condition read_kubeconfig) now 4 k1"
    and b: "needs (condition read_dashboard) (now + k1 * 4) 1 k2"
  shows "populate_polls ctx read_kubeconfig read_dashboard now results =
           Some (if in_budget ctx now 4 k1 \<and> in_budget ctx (now + k1 * 4) 1 k2
                 then Inr (now + k1 * 4 + k2,
                           results\<lparr>kubeconfig :=
                                      stored read_kubeconfig (now + k1 * 4) (kubeconfig results),
                                    dashboard_url :=
                                      stored read_dashboard (now + k1 * 4 + k2) (dashboard_url results)\<rparr>)
                 else Inl TimeoutError)"
  unfolding populate_polls_def populate_kubeconfig_poll_def populate_dashboard_url_poll_def
    wait_exact[OF a] 
  using wait_exact[OF b, of ctx] by simp

lemma db_create_plain:
  assumes a: "needs (event_finished env) (now + create_seconds env) (step_event env) n1"
    and b: "needs (status_active env)
              (now + create_seconds env + n1 * step_event env) (step_status env) n2"
    and u: "map_of params ''updates'' = None \<or> map_of params ''updates'' = Some JNull"
  shows "db_create ctx env params now =
     Some (if in_budget ctx (now + create_seconds env) (step_event env) n1 \<and>
              in_budget ctx (now + create_seconds env + n1 * step_event env) (step_status env) n2
           then Inr (now + create_seconds env + n1 * step_event env + n2 * step_status env,
                     [MysqlCreate params])
           else Inl TimeoutError)"
  unfolding db_create_def Let_def wait_exact[OF a]
  using wait_exact[OF b, of ctx] u
  by auto

lemma db_create_updates:
  assumes a: "needs (event_finished env) (now + create_seconds env) (step_event env) n1"
    and b: "needs (status_active env)
              (now + create_seconds env + n1 * step_event env) (step_status env) n2"
    and u: "map_of params ''updates'' = Some updates" "updates \<noteq> JNull"
    and c: "needs (status_active env)
              (now + create_seconds env + n1 * step_event env + n2 * step_status env +
               save_seconds env) (step_status env) n3"
  shows "db_create ctx env params now =
     Some (if in_budget ctx (now + create_seconds env) (step_event env) n1 \<and>
              in_budget ctx (now + create_seconds env + n1 * step_event env) (step_status env) n2 \<and>
              in_budget ctx (now + create_seconds env + n1 * step_event env + n2 * step_status env +
                             save_seconds env) (step_status env) n3
           then Inr (now + create_seconds env + n1 * step_event env + n2 * step_status env +
                     save_seconds env + n3 * step_status env,
                     [MysqlCreate params, DatabaseSave updates])
           else Inl TimeoutError)"
  unfolding db_create_def Let_def wait_exact[OF a]
  using wait_exact[OF b, of ctx] wait_exact[OF c, of ctx] u
  by (cases updates) auto

text \<open>
  Claim C6.  Every poll of a run is measured against the one deadline of the run, its
  start plus its budget, whenever the poll starts: a poll whose predicate needs \<open>k\<close>
  evaluations ends with the predicate satisfied when \<open>in_budget\<close> holds of it and with
  \<open>TimeoutError\<close> otherwise.  The two polls of \<open>_populate_results\<close>: the run returns both
  results, at the moment the second predicate is satisfied, when each poll is within
  the deadline, and reports \<open>TimeoutError\<close> otherwise.  The waits of \<open>_create\<close> in
  \<open>database_mysql_v2.py\<close> likewise, the seconds taken by \<open>mysql_create\<close> and \<open>save\<close> counting
  against the same deadline.
\<close>

theorem polls_share_one_budget:
  assumes kube: "needs (condition read_kubeconfig) now 4 k1"
    and dash: "needs (condition read_dashboard) (now + k1 * 4) 1 k2"
    and event: "needs (event_finished env) (t + create_seconds env) (step_event env) n1"
    and active: "needs (status_active env)
                   (t + create_seconds env + n1 * step_event env) (step_status env) n2"
  shows "populate_polls ctx read_kubeconfig read_dashboard now results =
           Some (if in_budget ctx now 4 k1 \<and> in_budget ctx (now + k1 * 4) 1 k2
                 then Inr (now + k1 * 4 + k2,
                           results\<lparr>kubeconfig :=
                                      stored read_kubeconfig (now + k1 * 4) (kubeconfig results),
                                    dashboard_url :=
                                      stored read_dashboard (now + k1 * 4 + k2) (dashboard_url results)\<rparr>)
                 else Inl TimeoutError) \<and>
         (map_of params ''updates'' = None \<or> map_of params ''updates'' = Some JNull \<longrightarrow>
            db_create ctx env params t =
              Some (if in_budget ctx (t + create_seconds env) (step_event env) n1 \<and>
                       in_budget ctx (t + create_seconds env + n1 * step_event env)
                         (step_status env) n2
                    then Inr (t + create_seconds env + n1 * step_event env + n2 * step_status env,
                              [MysqlCreate params])
                    else Inl TimeoutError)) \<and>
         (map_of params ''updates'' = Some updates \<and> updates \<noteq> JNull \<and>
          needs (status_active env)
            (t + create_seconds env + n1 * step_event env + n2 * step_status env + save_seconds env)
            (step_status env) n3 \<longrightarrow>
            db_create ctx env params t =
              Some (if in_budget ctx (t + create_seconds env) (step_event env) n1 \<and>
                       in_budget ctx (t + create_seconds env + n1 * step_event env)
                         (step_status env) n2 \<and>
                       in_budget ctx (t + create_seconds env + n1 * step_event env +
                                      n2 * step_status env + save_seconds env) (step_status env) n3
                    then Inr (t + create_seconds env + n1 * step_event env + n2 * step_status env +
                              save_seconds env + n3 * step_status env,
                              [MysqlCreate params, DatabaseSave updates])
                    else Inl TimeoutError))"
proof (intro conjI impI)
  show "populate_polls ctx read_kubeconfig read_dashboard now results =
           Some (if in_budget ctx now 4 k1 \<and> in_budget ctx (now + k1 * 4) 1 k2
                 then Inr (now + k1 * 4 + k2,
                           results\<lparr>kubeconfig :=
                                      stored read_kubeconfig (now + k1 * 4) (kubeconfig results),
                                    dashboard_url :=
                                      stored read_dashboard (now + k1 * 4 + k2) (dashboard_url results)\<rparr>)
                 else Inl TimeoutError)"
    by (rule populate_polls_exact[OF kube dash])
next
  assume "map_of params ''updates'' = None \<or> map_of params ''updates'' = Some JNull"
  then show "db_create ctx env params t =
              Some (if in_budget ctx (t + create_seconds env) (step_event env) n1 \<and>
                       in_budget ctx (t + create_seconds env + n1 * step_event env)
                         (step_status env) n2
                    then Inr (t + create_seconds env + n1 * step_event env + n2 * step_status env,
                              [MysqlCreate params])
                    else Inl TimeoutError)"
    by (rule db_create_plain[OF event active])
next
  assume u: "map_of params ''updates'' = Some updates \<and> updates \<noteq> JNull \<and>
          needs (status_active env)
            (t + create_seconds env + n1 * step_event env + n2 * step_status env + save_seconds env)
            (step_status env) n3"
  show "db_create ctx env params t =
              Some (if in_budget ctx (t + create_seconds env) (step_event env) n1 \<and>
                       in_budget ctx (t + create_seconds env + n1 * step_event env)
                         (step_status env) n2 \<and>
                       in_budget ctx (t + create_seconds env + n1 * step_event env +
                                      n2 * step_status env + save_seconds env) (step_status env) n3
                    then Inr (t + create_seconds env + n1 * step_event env + n2 * step_status env +
                              save_seconds env + n3 * step_status env,
                              [MysqlCreate params, DatabaseSave updates])
                    else Inl TimeoutError)"
    using u by (intro db_create_updates[OF event active]) simp_all
qed

text \<open>
  A budget of 10 seconds and two polls that need 6 seconds each: the first is satisfied
  at second 8 (step 4), the second would be at second 14 and times out, although a poll
  with 10 seconds of its own started at second 8 ends at second 14; with a second poll
  that needs one second the run returns both results at second 9.  A database whose
  status is \<open>active\<close> at second 10 is created in time; with \<open>updates\<close> given, the wait that
  follows \<open>save\<close> starts at second 11 and times out.
\<close>

theorem polls_share_one_budget_witness:
  "needs (condition (\<lambda>t. if 6 \<le> t then Inr ''kubeconfig'' else Inl (ApiError 503))) 0 4 2 \<and>
   needs (condition (\<lambda>t. if 14 \<le> t then Inr ''url'' else Inl (ApiError 503))) 8 1 6 \<and>
   populate_polls \<lparr>start_time = 0, timeout_seconds = 10\<rparr>
     (\<lambda>t. if 6 \<le> t then Inr ''kubeconfig'' else Inl (ApiError 503))
     (\<lambda>t. if 14 \<le> t then Inr ''url'' else Inl (ApiError 503)) 0
     \<lparr>kubeconfig = None, dashboard_url = None\<rparr>
   = Some (Inl TimeoutError) \<and>
   poll_condition (condition (\<lambda>t. if 14 \<le> t then Inr ''url'' else Inl (ApiError 503))) 1 10 8
   = Some (Inr 14) \<and>
   populate_polls \<lparr>start_time = 0, timeout_seconds = 10\<rparr>
     (\<lambda>t. if 6 \<le> t then Inr ''kubeconfig'' else Inl (ApiError 503))
     (\<lambda>t. if 9 \<le> t then Inr ''url'' else Inl (ApiError 503)) 0
     \<lparr>kubeconfig = None, dashboard_url = None\<rparr>
   = Some (Inr (9, \<lparr>kubeconfig = Some ''kubeconfig'', dashboard_url = Some ''url''\<rparr>)) \<and>
   db_create \<lparr>start_time = 0, timeout_seconds = 10\<rparr>
     \<lparr>event_finished = (\<lambda>t. Inr (3 \<le> t)), status_active = (\<lambda>t. Inr (t = 10 \<or> 14 \<le> t)),
      step_event = 2, step_status = 3, create_seconds = 2, save_seconds = 1\<rparr>
     [(''label'', JStr ''db'')] 0
   = Some (Inr (10, [MysqlCreate [(''label'', JStr ''db'')]])) \<and>
   db_create \<lparr>start_time = 0, timeout_seconds = 10\<rparr>
     \<lparr>event_finished = (\<lambda>t. Inr (3 \<le> t)), status_active = (\<lambda>t. Inr (t = 10 \<or> 14 \<le> t)),
      step_event = 2, step_status = 3, create_seconds = 2, save_seconds = 1\<rparr>
     [(''label'', JStr ''db''), (''updates'', JDict [(''hour_of_day'', JInt 2)])] 0
   = Some (Inl TimeoutError)"
proof -
  define ctx where "ctx = \<lparr>start_time = 0, timeout_seconds = 10\<rparr>"
  define rk :: "nat \<Rightarrow> error + string" where
    "rk = (\<lambda>t. if 6 \<le> t then Inr ''kubeconfig'' else Inl (ApiError 503))"
  define rd :: "nat \<Rightarrow> error + string" where
    "rd = (\<lambda>t. if 14 \<le> t then Inr ''url'' else Inl (ApiError 503))"
  define rd' :: "nat \<Rightarrow> error + string" where
    "rd' = (\<lambda>t. if 9 \<le> t then Inr ''url'' else Inl (ApiError 503))"
  define env where "env =
     \<lparr>event_finished = (\<lambda>t. Inr (3 \<le> t)), status_active = (\<lambda>t. Inr (t = 10 \<or> 14 \<le> t)),
      step_event = 2, step_status = 3, create_seconds = 2, save_seconds = 1\<rparr>"
  define res where "res = \<lparr>kubeconfig = None, dashboard_url = None\<rparr>"
  define p1 :: "jval dict" where "p1 = [(''label'', JStr ''db'')]"
  define p2 :: "jval dict" where
    "p2 = [(''label'', JStr ''db''), (''updates'', JDict [(''hour_of_day'', JInt 2)])]"
  have k: "needs (condition rk) 0 4 2" unfolding rk_def by code_simp
  have d: "needs (condition rd) (0 + 2 * 4) 1 6" unfolding rd_def by code_simp
  have d': "needs (condition rd') (0 + 2 * 4) 1 1" unfolding rd'_def by code_simp
  have e: "needs (event_finished env) (0 + create_seconds env) (step_event env) 1"
    unfolding env_def by code_simp
  have a: "needs (status_active env) (0 + create_seconds env + 1 * step_event env) (step_status env) 2"
    unfolding env_def by code_simp
  have c: "needs (status_active env)
             (0 + create_seconds env + 1 * step_event env + 2 * step_status env + save_seconds env)
             (step_status env) 1"
    unfolding env_def by code_simp
  have b: "in_budget ctx 0 4 2" "\<not> in_budget ctx (0 + 2 * 4) 1 6" "in_budget ctx (0 + 2 * 4) 1 1"
    "in_budget ctx (0 + create_seconds env) (step_event env) 1"
    "in_budget ctx (0 + create_seconds env + 1 * step_event env) (step_status env) 2"
    "\<not> in_budget ctx (0 + create_seconds env + 1 * step_event env + 2 * step_status env +
                       save_seconds env) (step_status env) 1"
    unfolding ctx_def env_def by (simp_all add: in_budget_def deadline_def)
  have s: "stored rk (0 + 2 * 4) None = Some ''kubeconfig''" "stored rd' (0 + 2 * 4 + 1) None = Some ''url''"
    unfolding rk_def rd'_def by (simp_all add: stored_def)
  have u1: "map_of p1 ''updates'' = None \<or> map_of p1 ''updates'' = Some JNull"
    unfolding p1_def by simp
  have u2: "map_of p2 ''updates'' = Some (JDict [(''hour_of_day'', JInt 2)])"
           "JDict [(''hour_of_day'', JInt 2)] \<noteq> JNull"
    unfolding p2_def by simp_all
  have fresh: "poll_condition (condition rd) 1 10 8 = Some (Inr 14)"
    unfolding rd_def by (simp add: poll_condition.simps condition_def)
  note i1 = polls_share_one_budget[OF k d e a, where ctx = ctx and results = res and params = p1]
  note i2 = polls_share_one_budget[OF k d' e a, where ctx = ctx and results = res and params = p2
              and updates = "JDict [(''hour_of_day'', JInt 2)]" and ?n3.0 = 1]
  have r1: "populate_polls ctx rk rd 0 res = Some (Inl TimeoutError)"
    using i1 b by simp
  have r2: "db_create ctx env p1 0 = Some (Inr (10, [MysqlCreate p1]))"
    using i1 u1 b by (simp add: env_def)
  have r3: "populate_polls ctx rk rd' 0 res =
              Some (Inr (9, \<lparr>kubeconfig = Some ''kubeconfig'', dashboard_url = Some ''url''\<rparr>))"
    using i2 b s by (simp add: res_def)
  have r4: "db_create ctx env p2 0 = Some (Inl TimeoutError)"
    using i2 u2 c b by simp
  have k': "needs (condition rk) 0 4 2" by (rule k)
  have d2: "needs (condition rd) 8 1 6" using d by simp
  show ?thesis
    using k' d2 r1 fresh r3 r2 r4
    unfolding ctx_def rk_def rd_def rd'_def env_def res_def p1_def p2_def
    by simp
qed

section \<open>Theorems: flat fields\<close>

lemma changed_fields_none:
  "\<forall>(k, v)\<in>set desired. \<forall>old. map_of remote k = Some old \<longrightarrow> old = v \<Longrightarrow>
   changed_fields remote desired = []"
  unfolding changed_fields_def
  by (auto simp: filter_empty_conv split: option.splits)

lemma handle_updates_equal:
  "\<forall>(k, v)\<in>set desired. \<forall>old. map_of remote k = Some old \<longrightarrow> old = v \<Longrightarrow>
   handle_updates remote desired mutable_fields = ([], None)"
  by (simp add: handle_updates_def changed_fields_none)

lemma np_stage_opt_equal:
  "new_value = None \<or> new_value = Some (attr pool) \<Longrightarrow>
   np_stage_opt new_value attr msg assign (pool, tr, su) = (pool, tr, su)"
  by (auto simp: np_stage_opt_def np_stage_def)

text \<open>
  Claim C7.  When every desired field equals the remote one, nothing is written and the
  ledger gains no entry.  For \<open>_update_pool\<close>: the count is given and equal, each of the
  five optional values is absent or equal, and every other parameter equals the field of
  the pool it corresponds to; the trace is the closing read \<open>pool._api_get()\<close> alone.
  For the rules of a firewall: \<open>_change_rules\<close> leaves, for each direction, the same list
  on both sides after its normalisation (and, in state \<open>update\<close>, its amendment), and each
  policy is absent from the parameters or equal to the remote one; \<open>_change_rules\<close> returns
  \<open>None\<close> and \<open>_update_firewall\<close> neither calls \<open>update_rules\<close> nor records an entry.
\<close>

theorem equal_fields_no_write:
  assumes count_eq: "new_count params = Some (np_count pool)"
    and autoscaler_eq: "new_autoscaler params = None \<or> new_autoscaler params = Some (np_autoscaler pool)"
    and taints_eq: "new_taints params = None \<or> new_taints params = Some (np_taints pool)"
    and labels_eq: "new_labels params = None \<or> new_labels params = Some (np_labels pool)"
    and version_eq: "new_k8s_version params = None \<or> new_k8s_version params = Some (np_k8s_version pool)"
    and strategy_eq:
      "new_update_strategy params = None \<or> new_update_strategy params = Some (np_update_strategy pool)"
    and rest_eq: "\<forall>(k, v)\<in>set (np_rest params). \<forall>old. map_of (np_fields pool) k = Some old \<longrightarrow> old = v"
    and inbound_eq:
      "update_rules_direction label_of amend_rules is_update
         (normalized normalize_ips (inbound remote_rules))
         (normalized normalize_ips (inbound local_rules)) = (rules_in, rules_in)"
    and outbound_eq:
      "update_rules_direction label_of amend_rules is_update
         (normalized normalize_ips (outbound remote_rules))
         (normalized normalize_ips (outbound local_rules)) = (rules_out, rules_out)"
    and policy_in_eq:
      "inbound_policy remote_rules = Some p_in \<and>
       (inbound_policy local_rules = None \<or> inbound_policy local_rules = Some p_in)"
    and policy_out_eq:
      "outbound_policy remote_rules = Some p_out \<and>
       (outbound_policy local_rules = None \<or> outbound_policy local_rules = Some p_out)"
  shows "update_pool params save_result pool = ([NpGet], None) \<and>
         rules_step normalize_ips label_of amend_rules is_update local_rules remote_rules = ([], None)"
proof
  have h: "handle_updates (np_fields pool) (np_rest params) {} = ([], None)"
    by (rule handle_updates_equal[OF rest_eq])
  have c: "np_stage (\<lambda>p. np_count p \<noteq> np_count pool) (\<lambda>p. NpResized (np_count p) (np_count pool))
             (\<lambda>p. p\<lparr>np_count := np_count pool\<rparr>) (pool, [], False) = (pool, [], False)"
    by (simp add: np_stage_def)
  have s1: "np_stage_opt (new_autoscaler params) np_autoscaler msg assign (pool, tr, su) = (pool, tr, su)"
    for msg assign tr su
    using autoscaler_eq by (rule np_stage_opt_equal)
  have s2: "np_stage_opt (new_taints params) np_taints msg assign (pool, tr, su) = (pool, tr, su)"
    for msg assign tr su
    using taints_eq by (rule np_stage_opt_equal)
  have s3: "np_stage_opt (new_labels params) np_labels msg assign (pool, tr, su) = (pool, tr, su)"
    for msg assign tr su
    using labels_eq by (rule np_stage_opt_equal)
  have s4: "np_stage_opt (new_k8s_version params) np_k8s_version msg assign (pool, tr, su) = (pool, tr, su)"
    for msg assign tr su
    using version_eq by (rule np_stage_opt_equal)
  have s5: "np_stage_opt (new_update_strategy params) np_update_strategy msg assign (pool, tr, su) = (pool, tr, su)"
    for msg assign tr su
    using strategy_eq by (rule np_stage_opt_equal)
  show "update_pool params save_result pool = ([NpGet], None)"
    unfolding update_pool_def
    by (simp add: count_eq h c s1 s2 s3 s4 s5)
next
  have pi: "sync_policy ''inbound_policy'' (inbound_policy local_rules) (inbound_policy remote_rules) = Inr (Some p_in)"
    using policy_in_eq by (auto simp: sync_policy_def)
  have po: "sync_policy ''outbound_policy'' (outbound_policy local_rules) (outbound_policy remote_rules) = Inr (Some p_out)"
    using policy_out_eq by (auto simp: sync_policy_def)
  have "change_rules normalize_ips label_of amend_rules is_update local_rules remote_rules = Inr None"
    unfolding change_rules_def inbound_eq outbound_eq pi po
    using policy_in_eq policy_out_eq by simp
  then show "rules_step normalize_ips label_of amend_rules is_update local_rules remote_rules = ([], None)"
    by (simp add: rules_step_def)
qed

theorem equal_fields_no_write_witness:
  "update_pool
     \<lparr>new_count = Some 3, new_autoscaler = Some (1::nat), new_taints = None, new_labels = Some 2,
      new_k8s_version = None, new_update_strategy = None, np_rest = [(''type'', 5)]\<rparr>
     None
     \<lparr>np_count = 3, np_autoscaler = 1, np_taints = 0, np_labels = 2, np_k8s_version = 9,
      np_update_strategy = 0, np_fields = [(''id'', 7), (''type'', 5)]\<rparr>
   = ([NpGet], None) \<and>
   rules_step id fst (\<lambda>remote local. local) False
     \<lparr>inbound = Some [(''ssh'', ''22'')], outbound = None, inbound_policy = Some ''DROP'',
      outbound_policy = None\<rparr>
     \<lparr>inbound = Some [(''ssh'', ''22'')], outbound = Some [], inbound_policy = Some ''DROP'',
      outbound_policy = Some ''ACCEPT''\<rparr>
   = ([], None)"
  by (rule equal_fields_no_write[where rules_in = "[(''ssh'', ''22'')]" and rules_out = "[]"
        and p_in = "''DROP''" and p_out = "''ACCEPT''"])
     (simp_all add: update_rules_direction_def normalized_def)

text \<open>
  \<open>_update_pool\<close> stages its fields: whatever differs, it writes at most once.  (The
  first loop of \<open>_update_cluster\<close> does not, see claim C4.)
\<close>

lemma handle_updates_immutable: "fst (handle_updates remote desired {}) = []"
proof (cases "changed_fields remote desired")
  case Nil
  then show ?thesis by (simp add: handle_updates_def)
next
  case (Cons a list)
  then show ?thesis by (cases a) (simp add: handle_updates_def)
qed

lemma np_stage_no_write:
  "filter is_np_write (fst (snd st)) = [] \<Longrightarrow>
   filter is_np_write (fst (snd (np_stage differs (\<lambda>p. NpResized (f p) c) assign st))) = []"
  by (cases st) (auto simp: np_stage_def)

lemma np_stage_opt_no_write:
  "filter is_np_write (fst (snd st)) = [] \<Longrightarrow>
   filter is_np_write (fst (snd (np_stage_opt new_value attr msg assign st))) = []"
  by (cases st; cases new_value) (auto simp: np_stage_opt_def np_stage_def)

lemma update_pool_single_write:
  "length (filter is_np_write (fst (update_pool params save_result pool))) \<le> 1"
proof (cases "new_count params")
  case None
  then show ?thesis by (simp add: update_pool_def)
next
  case (Some c)
  obtain ev err where h: "handle_updates (np_fields pool) (np_rest params) {} = (ev, err)"
    by (cases "handle_updates (np_fields pool) (np_rest params) {}")
  have ev: "ev = []" using handle_updates_immutable[of "np_fields pool" "np_rest params"] h by simp
  define st where "st =
     np_stage_opt (new_update_strategy params) np_update_strategy
       ''Updated update strategy for Node Pool'' (\<lambda>v p. p\<lparr>np_update_strategy := v\<rparr>)
     (np_stage_opt (new_k8s_version params) np_k8s_version
       ''Updated k8s version for Node Pool'' (\<lambda>v p. p\<lparr>np_k8s_version := v\<rparr>)
     (np_stage_opt (new_labels params) np_labels
       ''Updated labels for Node Pool'' (\<lambda>v p. p\<lparr>np_labels := v\<rparr>)
     (np_stage_opt (new_taints params) np_taints
       ''Updated taints for Node Pool'' (\<lambda>v p. p\<lparr>np_taints := v\<rparr>)
     (np_stage_opt (new_autoscaler params) np_autoscaler
       ''Updated autoscaler for Node Pool'' (\<lambda>v p. p\<lparr>np_autoscaler := v\<rparr>)
     (np_stage (\<lambda>p. np_count p \<noteq> c) (\<lambda>p. NpResized (np_count p) c)
       (\<lambda>p. p\<lparr>np_count := c\<rparr>)
       (pool, map NpField ev, False))))))"
  have nw: "filter is_np_write (fst (snd st)) = []"
    unfolding st_def
    by (intro np_stage_opt_no_write np_stage_no_write) (simp add: ev)
  obtain pool1 tr su where st_eq: "st = (pool1, tr, su)" by (cases st)
  have "update_pool params save_result pool =
          (case err of
             Some e \<Rightarrow> (map NpField ev, Some (ModuleFail ''failed to update lke cluster node pool''))
           | None \<Rightarrow>
               if su
               then (case save_result of
                       Some e \<Rightarrow> (tr @ [NpSave pool1], Some (ModuleFail ''failed to update node pool''))
                     | None \<Rightarrow> (tr @ [NpSave pool1, NpGet], None))
               else (tr @ [NpGet], None))"
    unfolding update_pool_def Some h
    by (simp add: st_def[symmetric] st_eq split: option.splits)
  then show ?thesis
    using nw by (auto simp: st_eq ev split: option.splits)
qed


end
